theory Spec2Isabelle
  imports Main "HOL-Library.List_Lexorder" "HOL-Library.Char_ord"
begin

section \<open>Calendar days\<close>

text \<open>
  The repository works on JavaScript \<open>Date\<close> objects, of which it reads the local
  calendar day only (\<open>getFullYear\<close>, \<open>getMonth\<close>, \<open>getDate\<close>, \<open>getDay\<close>) and which it
  moves by whole days (\<open>setDate(getDate() + n)\<close>). A calendar day is a triple of year,
  month (1 to 12) and day of the month. The time of day and the time zone of a
  \<open>Date\<close> are not modelled.
\<close>

type_synonym civil = "int \<times> int \<times> int"

definition isLeap :: "int \<Rightarrow> bool" where
  "isLeap y = (y mod 4 = 0 \<and> (y mod 100 \<noteq> 0 \<or> y mod 400 = 0))"

definition daysInMonth :: "int \<Rightarrow> int \<Rightarrow> int" where
  "daysInMonth y m =
     (if m = 2 then (if isLeap y then 29 else 28)
      else if m = 4 \<or> m = 6 \<or> m = 9 \<or> m = 11 then 30 else 31)"

definition validCivil :: "civil \<Rightarrow> bool" where
  "validCivil c = (case c of (y, m, d) \<Rightarrow> 1 \<le> m \<and> m \<le> 12 \<and> 1 \<le> d \<and> d \<le> daysInMonth y m)"

fun nextDay :: "civil \<Rightarrow> civil" where
  "nextDay (y, m, d) =
     (if d < daysInMonth y m then (y, m, d + 1)
      else if m < 12 then (y, m + 1, 1)
      else (y + 1, 1, 1))"

fun prevDay :: "civil \<Rightarrow> civil" where
  "prevDay (y, m, d) =
     (if 1 < d then (y, m, d - 1)
      else if 1 < m then (y, m - 1, daysInMonth y (m - 1))
      else (y - 1, 12, 31))"

text \<open>Moving a calendar day by \<open>n\<close> days, forward or backward, with month and year rollover.\<close>

definition addDays :: "int \<Rightarrow> civil \<Rightarrow> civil" where
  "addDays n c = (if 0 \<le> n then (nextDay ^^ nat n) c else (prevDay ^^ nat (- n)) c)"

text \<open>
  ECMAScript's \<open>DayFromYear\<close>: the number of days from 1970-01-01 to the first day of
  year \<open>y\<close>; \<open>div\<close> on \<open>int\<close> rounds down, as \<open>floor\<close> does.
\<close>

definition dayFromYear :: "int \<Rightarrow> int" where
  "dayFromYear y =
     365 * (y - 1970) + (y - 1969) div 4 - (y - 1901) div 100 + (y - 1601) div 400"

definition daysBeforeMonth :: "int \<Rightarrow> int \<Rightarrow> int" where
  "daysBeforeMonth y m =
     (if m \<le> 1 then 0
      else if m = 2 then 31
      else (if isLeap y then 1 else 0) +
        (if m = 3 then 59 else if m = 4 then 90 else if m = 5 then 120
         else if m = 6 then 151 else if m = 7 then 181 else if m = 8 then 212
         else if m = 9 then 243 else if m = 10 then 273 else if m = 11 then 304
         else 334))"

text \<open>The day number of a calendar day: days since 1970-01-01.\<close>

definition dayNumber :: "civil \<Rightarrow> int" where
  "dayNumber c = (case c of (y, m, d) \<Rightarrow> dayFromYear y + daysBeforeMonth y m + d - 1)"

text \<open>
  ECMAScript's \<open>MakeDay(year, month, date)\<close> with a month index counted from 0: months
  beyond the year carry into the year, and the date is an offset from the first day
  of the month, so that day 0 or day 32 roll over. \<open>makeDay\<close> is the day number,
  \<open>makeCivil\<close> the calendar day it denotes.
\<close>

definition makeDay :: "int \<Rightarrow> int \<Rightarrow> int \<Rightarrow> int" where
  "makeDay y m0 dt = dayNumber (y + m0 div 12, m0 mod 12 + 1, 1) + dt - 1"

definition makeCivil :: "int \<Rightarrow> int \<Rightarrow> int \<Rightarrow> civil" where
  "makeCivil y m0 dt = addDays (dt - 1) (y + m0 div 12, m0 mod 12 + 1, 1)"

text \<open>Both \<open>new Date(y, m, d)\<close> and \<open>Date.UTC(y, m, d)\<close> read a year from 0 to 99 as 1900 + y.\<close>

definition fullYear :: "int \<Rightarrow> int" where
  "fullYear y = (if 0 \<le> y \<and> y \<le> 99 then 1900 + y else y)"

section \<open>JavaScript values\<close>

text \<open>
  A JavaScript number that the code computes from dates is an integer or \<open>NaN\<close>
  (\<open>None\<close>). A \<open>Date\<close> is a calendar day or the invalid date. The bound of
  JavaScript on the time value of a \<open>Date\<close>, some 270000 years either side of 1970, is
  not modelled.
\<close>

type_synonym jsnum = "int option"

datatype Date = InvalidDate | LocalDay civil

definition newDate :: "jsnum \<Rightarrow> jsnum \<Rightarrow> jsnum \<Rightarrow> Date" where
  \<comment> \<open>\<open>new Date(year, monthIndex, day)\<close>\<close>
  "newDate y m0 d =
     (case (y, m0, d) of
        (Some y', Some m', Some d') \<Rightarrow> LocalDay (makeCivil (fullYear y') m' d')
      | _ \<Rightarrow> InvalidDate)"

definition Date_UTC :: "jsnum \<Rightarrow> jsnum \<Rightarrow> jsnum \<Rightarrow> jsnum" where
  \<comment> \<open>\<open>Date.UTC(year, monthIndex, day)\<close>, in milliseconds\<close>
  "Date_UTC y m0 d =
     (case (y, m0, d) of
        (Some y', Some m', Some d') \<Rightarrow> Some (86400000 * makeDay (fullYear y') m' d')
      | _ \<Rightarrow> None)"

fun getFullYear :: "Date \<Rightarrow> jsnum" where
  "getFullYear InvalidDate = None"
| "getFullYear (LocalDay (y, m, d)) = Some y"

fun getMonth :: "Date \<Rightarrow> jsnum" where
  "getMonth InvalidDate = None"
| "getMonth (LocalDay (y, m, d)) = Some (m - 1)"

fun getDate :: "Date \<Rightarrow> jsnum" where
  "getDate InvalidDate = None"
| "getDate (LocalDay (y, m, d)) = Some d"

fun getDay :: "Date \<Rightarrow> jsnum" where
  \<comment> \<open>0 = Sunday; 1970-01-01 was a Thursday\<close>
  "getDay InvalidDate = None"
| "getDay (LocalDay c) = Some ((dayNumber c + 4) mod 7)"

fun setDate :: "Date \<Rightarrow> jsnum \<Rightarrow> Date" where
  \<comment> \<open>\<open>date.setDate(dt)\<close>: \<open>MakeDay\<close> of the date's own year and month with the new day\<close>
  "setDate (LocalDay (y, m, d)) (Some dt) = LocalDay (makeCivil y (m - 1) dt)"
| "setDate _ _ = InvalidDate"

fun js_add :: "jsnum \<Rightarrow> jsnum \<Rightarrow> jsnum" where
  "js_add (Some a) (Some b) = Some (a + b)"
| "js_add _ _ = None"

fun js_sub :: "jsnum \<Rightarrow> jsnum \<Rightarrow> jsnum" where
  "js_sub (Some a) (Some b) = Some (a - b)"
| "js_sub _ _ = None"

fun js_mul :: "jsnum \<Rightarrow> jsnum \<Rightarrow> jsnum" where
  "js_mul (Some a) (Some b) = Some (a * b)"
| "js_mul _ _ = None"

section \<open>Strings of numbers and dates\<close>

definition digit_char :: "nat \<Rightarrow> char" where
  "digit_char n = char_of (48 + n)"

fun string_of_nat :: "nat \<Rightarrow> string" where
  "string_of_nat n =
     (if n < 10 then [digit_char n] else string_of_nat (n div 10) @ [digit_char (n mod 10)])"

declare string_of_nat.simps [simp del]

definition string_of_int :: "int \<Rightarrow> string" where
  "string_of_int i = (if i < 0 then CHR ''-'' # string_of_nat (nat (- i)) else string_of_nat (nat i))"

definition String_js :: "jsnum \<Rightarrow> string" where
  \<comment> \<open>\<open>String(x)\<close> and \<open>`${x}`\<close> on a number\<close>
  "String_js x = (case x of None \<Rightarrow> ''NaN'' | Some i \<Rightarrow> string_of_int i)"

definition padStart :: "nat \<Rightarrow> char \<Rightarrow> string \<Rightarrow> string" where
  "padStart n c s = replicate (n - length s) c @ s"

definition formatDateString :: "Date \<Rightarrow> string" where
  "formatDateString date =
     (let year = getFullYear date;
          month = padStart 2 (CHR ''0'') (String_js (js_add (getMonth date) (Some 1)));
          day = padStart 2 (CHR ''0'') (String_js (getDate date))
      in String_js year @ ''-'' @ month @ ''-'' @ day)"

text \<open>
  \<open>s.split('-')\<close>: the pieces between the separators; a string without separator is one
  piece, the empty string included.
\<close>

fun split_dash :: "string \<Rightarrow> string list" where
  "split_dash [] = [[]]"
| "split_dash (c # cs) =
     (if c = CHR ''-'' then [] # split_dash cs
      else (case split_dash cs of p # ps \<Rightarrow> (c # p) # ps | [] \<Rightarrow> [[c]]))"

definition is_digit :: "char \<Rightarrow> bool" where
  "is_digit c = (CHR ''0'' \<le> c \<and> c \<le> CHR ''9'')"

definition digit_val :: "char \<Rightarrow> int" where
  "digit_val c = int (of_char c) - 48"

text \<open>
  \<open>Number(s)\<close> on a string of decimal digits; the empty string is 0. Every other string
  is \<open>NaN\<close> here: JavaScript also reads signs, fractions, exponents, surrounding white
  space and radix prefixes, none of which \<open>formatDateString\<close> writes.
\<close>

definition Number_js :: "string \<Rightarrow> jsnum" where
  "Number_js s = (if list_all is_digit s then Some (foldl (\<lambda>a c. 10 * a + digit_val c) 0 s) else None)"

fun nth_num :: "jsnum list \<Rightarrow> nat \<Rightarrow> jsnum" where
  \<comment> \<open>array destructuring: a missing element is \<open>undefined\<close>, \<open>NaN\<close> in arithmetic\<close>
  "nth_num [] n = None"
| "nth_num (x # xs) 0 = x"
| "nth_num (x # xs) (Suc n) = nth_num xs n"

section \<open>The habit store\<close>

text \<open>
  The four tables of \<open>initializeSchema\<close>, with the columns the repository functions
  read or write; the field prefixes are the table aliases of the SQL text. Rows are
  kept in insertion order. \<open>NULL\<close> is \<open>None\<close>.
\<close>

datatype HabitScheduleType = daily | custom | interval

record habit_row =
  h_id :: string
  h_name :: string
  h_schedule_type :: HabitScheduleType
  h_interval_days :: "int option"
  h_one_time_date :: "string option"
  h_created_at :: string
  h_updated_at :: string

record habit_day_row =
  hd_habit_id :: string
  hd_day_of_week :: int

record completion_row =
  c_habit_id :: string
  c_completed_date :: string

record interval_state_row =
  ihs_habit_id :: string
  ihs_last_completed :: "string option"
  ihs_last_due :: "string option"
  ihs_next_due :: string
  ihs_reschedule_if_missed :: int

record store =
  habits :: "habit_row list"
  habit_days :: "habit_day_row list"
  habit_completions :: "completion_row list"
  interval_habit_state :: "interval_state_row list"

definition empty_store :: store where
  "empty_store = \<lparr>habits = [], habit_days = [], habit_completions = [], interval_habit_state = []\<rparr>"

datatype db_error =
    PrimaryKeyConstraint | UniqueConstraint | CheckConstraint | ForeignKeyConstraint

record Habit =
  hId :: string
  hName :: string
  scheduleType :: HabitScheduleType
  intervalDays :: "int option"
  oneTimeDate :: "string option"
  createdAt :: string
  updatedAt :: string

record HabitWithCompletion = Habit +
  completed :: bool

datatype NewHabit =
    NewDailyHabit string "string option"
  | NewCustomHabit string "string option" "int list"
  | NewIntervalHabit string "string option" int "string option" "bool option"

fun newName :: "NewHabit \<Rightarrow> string" where
  "newName (NewDailyHabit n otd) = n"
| "newName (NewCustomHabit n otd ds) = n"
| "newName (NewIntervalHabit n otd iv sd r) = n"

fun newOneTimeDate :: "NewHabit \<Rightarrow> string option" where
  "newOneTimeDate (NewDailyHabit n otd) = otd"
| "newOneTimeDate (NewCustomHabit n otd ds) = otd"
| "newOneTimeDate (NewIntervalHabit n otd iv sd r) = otd"

fun newScheduleType :: "NewHabit \<Rightarrow> HabitScheduleType" where
  "newScheduleType (NewDailyHabit n otd) = daily"
| "newScheduleType (NewCustomHabit n otd ds) = custom"
| "newScheduleType (NewIntervalHabit n otd iv sd r) = interval"

text \<open>JavaScript truthiness of an optional string and of an optional number.\<close>

fun truthy_string :: "string option \<Rightarrow> bool" where
  "truthy_string None = False"
| "truthy_string (Some s) = (s \<noteq> [])"

fun truthy_num :: "int option \<Rightarrow> bool" where
  "truthy_num None = False"
| "truthy_num (Some n) = (n \<noteq> 0)"

definition mapRowToHabit :: "habit_row \<Rightarrow> Habit" where
  "mapRowToHabit row =
     \<lparr>hId = h_id row, hName = h_name row, scheduleType = h_schedule_type row,
      intervalDays = h_interval_days row, oneTimeDate = h_one_time_date row,
      createdAt = h_created_at row, updatedAt = h_updated_at row\<rparr>"

definition withCompleted :: "Habit \<Rightarrow> bool \<Rightarrow> HabitWithCompletion" where
  \<comment> \<open>\<open>{ ...habit, completed }\<close>\<close>
  "withCompleted h b = Habit.extend h (HabitWithCompletion.fields b)"

section \<open>The Interval Advancer\<close>

text \<open>
  The \<open>SELECT\<close> of \<open>autoAdvanceOverdueIntervalHabits\<close>: state rows joined with their
  habit, where \<open>reschedule_if_missed = 0\<close> and \<open>next_due\<close> precedes the date string in
  the byte order of strings.
\<close>

definition overdueHabits :: "store \<Rightarrow> string \<Rightarrow> (string \<times> string \<times> int option) list" where
  "overdueHabits s dateString =
     [(ihs_habit_id ihs, ihs_next_due ihs, h_interval_days h).
        ihs \<leftarrow> interval_habit_state s, h \<leftarrow> habits s,
        h_id h = ihs_habit_id ihs,
        ihs_reschedule_if_missed ihs = 0 \<and> ihs_next_due ihs < dateString]"

definition parseYMD :: "string \<Rightarrow> jsnum \<times> jsnum \<times> jsnum" where
  \<comment> \<open>\<open>const [year, month, day] = s.split('-').map(Number)\<close>\<close>
  "parseYMD s = (let ns = map Number_js (split_dash s) in (nth_num ns 0, nth_num ns 1, nth_num ns 2))"

definition daysPassed :: "string \<Rightarrow> Date \<Rightarrow> jsnum" where
  "daysPassed next_due referenceDate =
     (case parseYMD next_due of (year, month, day) \<Rightarrow>
        let dueDateUtc = Date_UTC year (js_sub month (Some 1)) day;
            todayUtc = Date_UTC (getFullYear referenceDate) (getMonth referenceDate) (getDate referenceDate)
        in (case js_sub todayUtc dueDateUtc of
              None \<Rightarrow> None
            | Some ms \<Rightarrow> Some (ms div (1000 * 60 * 60 * 24))))"

text \<open>
  \<open>Math.ceil(daysPassed / interval_days)\<close> on integers is the rounded-up quotient. With
  \<open>interval_days\<close> 0 or \<open>NULL\<close> the quotient is infinite or \<open>NaN\<close>, and its product
  with \<open>interval_days\<close>, the only use made of it, is \<open>NaN\<close>: \<open>None\<close> here.
\<close>

definition intervalsToAdd :: "jsnum \<Rightarrow> int option \<Rightarrow> jsnum" where
  "intervalsToAdd dp interval_days =
     (case (dp, interval_days) of
        (Some p, Some iv) \<Rightarrow> if iv = 0 then None else Some (- ((- p) div iv))
      | _ \<Rightarrow> None)"

definition newDueDate :: "string \<Rightarrow> int option \<Rightarrow> Date \<Rightarrow> Date" where
  "newDueDate next_due interval_days referenceDate =
     (case parseYMD next_due of (year, month, day) \<Rightarrow>
        let d0 = newDate year (js_sub month (Some 1)) day
        in setDate d0 (js_add (getDate d0)
             (js_mul (intervalsToAdd (daysPassed next_due referenceDate) interval_days) interval_days)))"

definition lastDueDate :: "Date \<Rightarrow> int option \<Rightarrow> Date" where
  \<comment> \<open>a \<open>NULL\<close> interval counts as 0 in the subtraction\<close>
  "lastDueDate newDue interval_days =
     setDate newDue (js_sub (getDate newDue) (Some (case interval_days of None \<Rightarrow> 0 | Some iv \<Rightarrow> iv)))"

definition updateDue :: "string \<Rightarrow> string \<Rightarrow> string \<Rightarrow> store \<Rightarrow> store" where
  \<comment> \<open>\<open>UPDATE interval_habit_state SET next_due = ?, last_due = ? WHERE habit_id = ?\<close>\<close>
  "updateDue next_due last_due habit_id s =
     s\<lparr>interval_habit_state :=
         map (\<lambda>r. if ihs_habit_id r = habit_id
                   then r\<lparr>ihs_next_due := next_due, ihs_last_due := Some last_due\<rparr> else r)
           (interval_habit_state s)\<rparr>"

definition advanceHabit :: "Date \<Rightarrow> string \<times> string \<times> int option \<Rightarrow> store \<Rightarrow> store" where
  \<comment> \<open>the body of the loop over the overdue habits\<close>
  "advanceHabit referenceDate habit s =
     (case habit of (habit_id, next_due, interval_days) \<Rightarrow>
        let newDue = newDueDate next_due interval_days referenceDate;
            lastDue = lastDueDate newDue interval_days
        in updateDue (formatDateString newDue) (formatDateString lastDue) habit_id s)"

definition autoAdvanceOverdueIntervalHabits :: "store \<Rightarrow> Date \<Rightarrow> store" where
  "autoAdvanceOverdueIntervalHabits s referenceDate =
     fold (advanceHabit referenceDate) (overdueHabits s (formatDateString referenceDate)) s"

section \<open>Creating habits\<close>

text \<open>
  \<open>createHabit\<close> takes the generated id, the time stamp and today's date as arguments.
  Its writes are separate statements outside any transaction: when one of them
  violates a constraint of the schema, the rows written before it stay, so the store
  is returned beside the outcome.
\<close>

definition insertHabit :: "habit_row \<Rightarrow> store \<Rightarrow> db_error + store" where
  "insertHabit row s =
     (if list_ex (\<lambda>h. h_id h = h_id row) (habits s) then Inl PrimaryKeyConstraint
      else Inr (s\<lparr>habits := habits s @ [row]\<rparr>))"

definition insertHabitDay :: "string \<Rightarrow> int \<Rightarrow> store \<Rightarrow> db_error + store" where
  \<comment> \<open>\<open>INSERT INTO habit_days (habit_id, day_of_week) VALUES (?, ?)\<close>\<close>
  "insertHabitDay habit_id day s =
     (if \<not> (0 \<le> day \<and> day \<le> 6) then Inl CheckConstraint
      else if list_ex (\<lambda>hd. hd_habit_id hd = habit_id \<and> hd_day_of_week hd = day) (habit_days s)
        then Inl UniqueConstraint
      else if \<not> list_ex (\<lambda>h. h_id h = habit_id) (habits s) then Inl ForeignKeyConstraint
      else Inr (s\<lparr>habit_days := habit_days s @ [\<lparr>hd_habit_id = habit_id, hd_day_of_week = day\<rparr>]\<rparr>))"

fun insertHabitDays :: "string \<Rightarrow> int list \<Rightarrow> store \<Rightarrow> store \<times> db_error option" where
  "insertHabitDays habit_id [] s = (s, None)"
| "insertHabitDays habit_id (day # days) s =
     (case insertHabitDay habit_id day s of
        Inl e \<Rightarrow> (s, Some e)
      | Inr s' \<Rightarrow> insertHabitDays habit_id days s')"

definition insertIntervalState :: "string \<Rightarrow> string \<Rightarrow> int \<Rightarrow> store \<Rightarrow> db_error + store" where
  \<comment> \<open>\<open>INSERT INTO interval_habit_state (habit_id, next_due, reschedule_if_missed)\<close>\<close>
  "insertIntervalState habit_id next_due reschedule s =
     (if list_ex (\<lambda>r. ihs_habit_id r = habit_id) (interval_habit_state s) then Inl PrimaryKeyConstraint
      else if \<not> list_ex (\<lambda>h. h_id h = habit_id) (habits s) then Inl ForeignKeyConstraint
      else Inr (s\<lparr>interval_habit_state := interval_habit_state s @
             [\<lparr>ihs_habit_id = habit_id, ihs_last_completed = None, ihs_last_due = None,
               ihs_next_due = next_due, ihs_reschedule_if_missed = reschedule\<rparr>]\<rparr>))"

definition createdHabit :: "string \<Rightarrow> string \<Rightarrow> NewHabit \<Rightarrow> Habit" where
  \<comment> \<open>the object \<open>createHabit\<close> returns\<close>
  "createdHabit id' now newHabit =
     \<lparr>hId = id', hName = newName newHabit, scheduleType = newScheduleType newHabit,
      intervalDays = (case newHabit of NewIntervalHabit n otd iv sd r \<Rightarrow> Some iv | _ \<Rightarrow> None),
      oneTimeDate = (if newScheduleType newHabit = custom then newOneTimeDate newHabit else None),
      createdAt = now, updatedAt = now\<rparr>"

definition createHabit :: "store \<Rightarrow> string \<Rightarrow> string \<Rightarrow> Date \<Rightarrow> NewHabit \<Rightarrow> store \<times> (db_error + Habit)" where
  "createHabit s id' now today newHabit =
     (let oneTimeDate' = (if newScheduleType newHabit = custom then newOneTimeDate newHabit else None);
          row = \<lparr>h_id = id', h_name = newName newHabit, h_schedule_type = newScheduleType newHabit,
                 h_interval_days = (case newHabit of NewIntervalHabit n otd iv sd r \<Rightarrow> Some iv | _ \<Rightarrow> None),
                 h_one_time_date = oneTimeDate', h_created_at = now, h_updated_at = now\<rparr>
      in case insertHabit row s of
           Inl e \<Rightarrow> (s, Inl e)
         | Inr s1 \<Rightarrow>
            (case (case newHabit of
                     NewCustomHabit n otd days \<Rightarrow>
                       if \<not> truthy_string (newOneTimeDate newHabit) \<and> length days > 0
                       then insertHabitDays id' days s1 else (s1, None)
                   | _ \<Rightarrow> (s1, None)) of
               (s2, Some e) \<Rightarrow> (s2, Inl e)
             | (s2, None) \<Rightarrow>
                (case newHabit of
                   NewIntervalHabit n otd iv startDate rescheduleIfMissed \<Rightarrow>
                     let startDate' = (case startDate of
                                         Some sd \<Rightarrow> if truthy_string startDate then sd
                                                    else formatDateString today
                                       | None \<Rightarrow> formatDateString today);
                         rescheduleIfMissed' = (if rescheduleIfMissed = Some True then 1 else 0)
                     in (case insertIntervalState id' startDate' rescheduleIfMissed' s2 of
                           Inl e \<Rightarrow> (s2, Inl e)
                         | Inr s3 \<Rightarrow> (s3, Inr (createdHabit id' now newHabit)))
                 | _ \<Rightarrow> (s2, Inr (createdHabit id' now newHabit)))))"

section \<open>The Schedule Resolver\<close>

text \<open>
  The \<open>LEFT JOIN\<close> of \<open>getHabitsForDate\<close>: every habit with each of its completions of the
  date, or with \<open>NULL\<close> when it has none.
\<close>

definition joinCompletions :: "store \<Rightarrow> string \<Rightarrow> (habit_row \<times> completion_row option) list" where
  "joinCompletions s dateString =
     concat (map (\<lambda>h.
        case filter (\<lambda>c. h_id h = c_habit_id c \<and> c_completed_date c = dateString) (habit_completions s) of
          [] \<Rightarrow> [(h, None)]
        | cs \<Rightarrow> map (\<lambda>c. (h, Some c)) cs) (habits s))"

definition intervalDue :: "string \<Rightarrow> interval_state_row \<Rightarrow> bool" where
  \<comment> \<open>the four conditions on a state row, in the order of the SQL text\<close>
  "intervalDue dateString ihs =
     (ihs_next_due ihs = dateString
      \<or> (ihs_reschedule_if_missed ihs = 1 \<and> ihs_next_due ihs < dateString)
      \<or> (ihs_reschedule_if_missed ihs = 1
          \<and> (case (ihs_last_due ihs, ihs_last_completed ihs) of
                (Some ld, Some lc) \<Rightarrow> ld \<le> dateString \<and> lc > dateString
              | _ \<Rightarrow> False))
      \<or> (ihs_reschedule_if_missed ihs = 0
          \<and> ihs_last_due ihs = Some dateString
          \<and> (case ihs_last_completed ihs of None \<Rightarrow> True | Some lc \<Rightarrow> Some lc \<noteq> ihs_last_due ihs)))"

definition dueWhere :: "store \<Rightarrow> jsnum \<Rightarrow> string \<Rightarrow> habit_row \<times> completion_row option \<Rightarrow> bool" where
  \<comment> \<open>the \<open>WHERE\<close> clause of \<open>getHabitsForDate\<close>\<close>
  "dueWhere s dayOfWeek dateString hc =
     (case hc of (h, c) \<Rightarrow>
        h_schedule_type h = daily
        \<or> (h_schedule_type h = custom \<and> h_one_time_date h = None
            \<and> list_ex (\<lambda>hd. hd_habit_id hd = h_id h \<and> Some (hd_day_of_week hd) = dayOfWeek) (habit_days s))
        \<or> (h_schedule_type h = custom \<and> h_one_time_date h = Some dateString)
        \<or> (h_schedule_type h = interval
            \<and> (c \<noteq> None
                \<or> list_ex (\<lambda>ihs. ihs_habit_id ihs = h_id h \<and> intervalDue dateString ihs)
                     (interval_habit_state s))))"

definition dueRows :: "store \<Rightarrow> jsnum \<Rightarrow> string \<Rightarrow> (habit_row \<times> completion_row option) list" where
  \<comment> \<open>the rows of the query, \<open>ORDER BY h.created_at ASC\<close>\<close>
  "dueRows s dayOfWeek dateString =
     sort_key (\<lambda>hc. h_created_at (fst hc)) (filter (dueWhere s dayOfWeek dateString) (joinCompletions s dateString))"

definition getHabitsForDate :: "store \<Rightarrow> Date \<Rightarrow> store \<times> HabitWithCompletion list" where
  "getHabitsForDate s date =
     (let dayOfWeek = getDay date;
          dateString = formatDateString date;
          s' = autoAdvanceOverdueIntervalHabits s date
      in (s', map (\<lambda>hc. withCompleted (mapRowToHabit (fst hc)) (snd hc \<noteq> None))
                (dueRows s' dayOfWeek dateString)))"

section \<open>The Completion Ledger\<close>

text \<open>
  \<open>INSERT OR IGNORE\<close> skips a row that repeats \<open>(habit_id, completed_date)\<close>; it does not
  skip the foreign key, so completing an unknown habit fails and writes nothing.
\<close>

definition insertCompletionOrIgnore :: "string \<Rightarrow> string \<Rightarrow> store \<Rightarrow> db_error + store" where
  "insertCompletionOrIgnore habitId dateString s =
     (if list_ex (\<lambda>c. c_habit_id c = habitId \<and> c_completed_date c = dateString) (habit_completions s)
        then Inr s
      else if \<not> list_ex (\<lambda>h. h_id h = habitId) (habits s) then Inl ForeignKeyConstraint
      else Inr (s\<lparr>habit_completions := habit_completions s @
             [\<lparr>c_habit_id = habitId, c_completed_date = dateString\<rparr>]\<rparr>))"

definition updateCompleted :: "string \<Rightarrow> string \<Rightarrow> string \<Rightarrow> string \<Rightarrow> store \<Rightarrow> store" where
  \<comment> \<open>\<open>UPDATE interval_habit_state SET last_completed = ?, last_due = ?, next_due = ? WHERE habit_id = ?\<close>\<close>
  "updateCompleted last_completed last_due next_due habitId s =
     s\<lparr>interval_habit_state :=
         map (\<lambda>r. if ihs_habit_id r = habitId
                   then r\<lparr>ihs_last_completed := Some last_completed, ihs_last_due := Some last_due,
                          ihs_next_due := next_due\<rparr>
                   else r)
           (interval_habit_state s)\<rparr>"

definition completeHabit :: "store \<Rightarrow> string \<Rightarrow> Date \<Rightarrow> db_error + store" where
  "completeHabit s habitId date =
     (let dateString = formatDateString date
      in case insertCompletionOrIgnore habitId dateString s of
           Inl e \<Rightarrow> Inl e
         | Inr s1 \<Rightarrow>
            (case find (\<lambda>h. h_id h = habitId) (habits s1) of
               None \<Rightarrow> Inr s1
             | Some habit \<Rightarrow>
                if h_schedule_type habit = interval \<and> truthy_num (h_interval_days habit) then
                  let nextDue = setDate date (js_add (getDate date) (h_interval_days habit));
                      intervalState = find (\<lambda>r. ihs_habit_id r = habitId) (interval_habit_state s1);
                      lastDue = (case intervalState of None \<Rightarrow> dateString | Some r \<Rightarrow> ihs_next_due r)
                  in Inr (updateCompleted dateString lastDue (formatDateString nextDue) habitId s1)
                else Inr s1))"

definition uncompleteHabit :: "store \<Rightarrow> string \<Rightarrow> Date \<Rightarrow> store" where
  \<comment> \<open>\<open>DELETE FROM habit_completions WHERE habit_id = ? AND completed_date = ?\<close>\<close>
  "uncompleteHabit s habitId date =
     s\<lparr>habit_completions :=
         filter (\<lambda>c. \<not> (c_habit_id c = habitId \<and> c_completed_date c = formatDateString date))
           (habit_completions s)\<rparr>"

section \<open>The Streak Calculator\<close>

text \<open>
  \<open>getStreak\<close> reads the clock; today's date is an argument here. The loop over the
  completions, newest first, carries the streak and the expected date; leaving the
  loop with \<open>break\<close> returns the streak reached.
\<close>

definition streakCompletions :: "store \<Rightarrow> string \<Rightarrow> string \<Rightarrow> string list" where
  \<comment> \<open>\<open>WHERE habit_id = ? AND completed_date <= ? ORDER BY completed_date DESC\<close>\<close>
  "streakCompletions s habitId today =
     rev (sort (map c_completed_date
       (filter (\<lambda>c. c_habit_id c = habitId \<and> c_completed_date c \<le> today) (habit_completions s))))"

definition dayBefore :: "Date \<Rightarrow> Date" where
  \<comment> \<open>\<open>d.setDate(d.getDate() - 1)\<close>\<close>
  "dayBefore d = setDate d (js_sub (getDate d) (Some 1))"

fun streakLoop :: "string list \<Rightarrow> nat \<Rightarrow> Date \<Rightarrow> nat" where
  "streakLoop [] streak expectedDate = streak"
| "streakLoop (completed_date # rest) streak expectedDate =
     (if completed_date = formatDateString expectedDate
        then streakLoop rest (streak + 1) (dayBefore expectedDate)
      else if streak = 0 then
        (let expectedDate' = dayBefore expectedDate
         in if completed_date = formatDateString expectedDate'
              then streakLoop rest (streak + 1) (dayBefore expectedDate')
            else streak)
      else streak)"

definition getStreak :: "store \<Rightarrow> string \<Rightarrow> Date \<Rightarrow> nat" where
  "getStreak s habitId now =
     (let today = formatDateString now;
          completions = streakCompletions s habitId today
      in if length completions = 0 then 0 else streakLoop completions 0 now)"

definition isCompleteDay :: "store \<Rightarrow> Date \<Rightarrow> store \<times> bool" where
  "isCompleteDay s date =
     (case getHabitsForDate s date of (s', habits') \<Rightarrow>
        let completedCount = length (filter completed habits')
        in (s', length habits' > 0 \<and> completedCount = length habits'))"

text \<open>
  The \<open>while (complete)\<close> loop of \<open>getDailyCompletionStreak\<close>. Every turn queries the
  store, which the query may advance. The loop has no bound of its own: a result
  \<open>None\<close> stands for a loop that never ends.
\<close>

partial_function (option) dailyStreakLoop :: "store \<Rightarrow> Date \<Rightarrow> nat \<Rightarrow> bool \<Rightarrow> (store \<times> nat) option" where
  "dailyStreakLoop s cursor streak complete =
     (if complete then
        (case isCompleteDay s (dayBefore cursor) of
           (s', complete') \<Rightarrow> dailyStreakLoop s' (dayBefore cursor) (streak + 1) complete')
      else Some (s, streak))"

declare dailyStreakLoop.simps [code]

definition getDailyCompletionStreak :: "store \<Rightarrow> Date \<Rightarrow> (store \<times> nat) option" where
  "getDailyCompletionStreak s startDate =
     (case isCompleteDay s startDate of (s1, isTodayComplete) \<Rightarrow>
        let cursor = (if \<not> isTodayComplete then dayBefore startDate else startDate)
        in (case (if \<not> isTodayComplete then isCompleteDay s1 cursor else (s1, isTodayComplete)) of
              (s2, complete) \<Rightarrow> dailyStreakLoop s2 cursor 0 complete))"

section \<open>Notions the claims are stated with\<close>

text \<open>
  The length of a year, the order of calendar days by year, month and day, and a
  number below 100 written with two digits.
\<close>

definition yearLength :: "int \<Rightarrow> int" where
  "yearLength y = (if isLeap y then 366 else 365)"

fun civil_less :: "civil \<Rightarrow> civil \<Rightarrow> bool" where
  "civil_less (y1, m1, d1) (y2, m2, d2) =
     (y1 < y2 \<or> (y1 = y2 \<and> (m1 < m2 \<or> (m1 = m2 \<and> d1 < d2))))"

definition two_digits :: "nat \<Rightarrow> string" where
  "two_digits n = [digit_char (n div 10), digit_char (n mod 10)]"

text \<open>
  A calendar day with a year of four digits. These are the days whose date strings
  have one width, so that the byte order of the strings is the order of the days.
\<close>

definition inRange :: "civil \<Rightarrow> bool" where
  "inRange c = (validCivil c \<and> 1000 \<le> fst c \<and> fst c \<le> 9999)"

text \<open>
  A stored date string that the advancer reads as such a day, and one that is moreover
  the very string \<open>formatDateString\<close> writes for it.
\<close>

definition parsesToDate :: "string \<Rightarrow> bool" where
  "parsesToDate str =
     (case parseYMD str of
        (Some y, Some m, Some d) \<Rightarrow> inRange (y, m, d)
      | _ \<Rightarrow> False)"

definition canonicalDate :: "string \<Rightarrow> bool" where
  "canonicalDate str =
     (case parseYMD str of
        (Some y, Some m, Some d) \<Rightarrow> inRange (y, m, d) \<and> formatDateString (LocalDay (y, m, d)) = str
      | _ \<Rightarrow> False)"

text \<open>
  A row selected by the advancer that it can advance from \<open>today\<close> within the years
  of four digits: its \<open>next_due\<close> reads as a date and its interval is positive.
\<close>

definition advanceableRow :: "civil \<Rightarrow> string \<times> string \<times> int option \<Rightarrow> bool" where
  "advanceableRow today habit =
     (case habit of (habit_id, next_due, interval_days) \<Rightarrow>
        parsesToDate next_due
        \<and> (case interval_days of
              Some iv \<Rightarrow> 0 < iv \<and> dayNumber today + iv \<le> dayNumber (9999, 12, 31)
            | None \<Rightarrow> False))"

text \<open>A completion of the habit on the date string is stored.\<close>

definition hasCompletion :: "store \<Rightarrow> string \<Rightarrow> string \<Rightarrow> bool" where
  "hasCompletion s habitId dateString =
     list_ex (\<lambda>c. c_habit_id c = habitId \<and> c_completed_date c = dateString) (habit_completions s)"

text \<open>
  The guard of \<open>completeHabit\<close> before it writes the interval state: the habit is found,
  is an interval habit and has a non-zero \<open>interval_days\<close>.
\<close>

definition updatesIntervalState :: "store \<Rightarrow> string \<Rightarrow> bool" where
  "updatesIntervalState s habitId =
     (case find (\<lambda>h. h_id h = habitId) (habits s) of
        None \<Rightarrow> False
      | Some habit \<Rightarrow> h_schedule_type habit = interval \<and> truthy_num (h_interval_days habit))"

text \<open>
  Two conditions on a store: every weekday row belongs to a stored habit (the foreign
  key of \<open>habit_days\<close>), and no custom habit with a \<open>one_time_date\<close> has weekday rows.
\<close>

definition daysReferenceHabits :: "store \<Rightarrow> bool" where
  "daysReferenceHabits s =
     list_all (\<lambda>hd. list_ex (\<lambda>h. h_id h = hd_habit_id hd) (habits s)) (habit_days s)"

definition oneTimeHasNoDays :: "store \<Rightarrow> bool" where
  "oneTimeHasNoDays s =
     list_all (\<lambda>h. h_schedule_type h = custom \<and> h_one_time_date h \<noteq> None \<longrightarrow>
                 \<not> list_ex (\<lambda>hd. hd_habit_id hd = h_id h) (habit_days s)) (habits s)"

section \<open>Scenario stores\<close>

text \<open>
  The store of Scenario B: one interval habit, every 3 days, not rescheduled when
  missed, first due on 2024-01-01.
\<close>

definition scenarioB :: store where
  "scenarioB =
     \<lparr>habits = [\<lparr>h_id = ''habit-b'', h_name = ''run'', h_schedule_type = interval,
          h_interval_days = Some 3, h_one_time_date = None,
          h_created_at = ''2024-01-01T08:00:00.000Z'', h_updated_at = ''2024-01-01T08:00:00.000Z''\<rparr>],
      habit_days = [], habit_completions = [],
      interval_habit_state =
        [\<lparr>ihs_habit_id = ''habit-b'', ihs_last_completed = None, ihs_last_due = None,
          ihs_next_due = ''2024-01-01'', ihs_reschedule_if_missed = 0\<rparr>]\<rparr>"

text \<open>Scenario B after the query for 2024-01-10 has advanced it.\<close>

definition scenarioB_advanced :: store where
  "scenarioB_advanced =
     scenarioB\<lparr>interval_habit_state :=
        [\<lparr>ihs_habit_id = ''habit-b'', ihs_last_completed = None, ihs_last_due = Some ''2024-01-07'',
          ihs_next_due = ''2024-01-10'', ihs_reschedule_if_missed = 0\<rparr>]\<rparr>"

text \<open>Scenario C: the habit of Scenario B, completed on 2024-01-10.\<close>

definition scenarioC :: store where
  "scenarioC =
     scenarioB\<lparr>habit_completions := [\<lparr>c_habit_id = ''habit-b'', c_completed_date = ''2024-01-10''\<rparr>],
       interval_habit_state :=
        [\<lparr>ihs_habit_id = ''habit-b'', ihs_last_completed = Some ''2024-01-10'',
          ihs_last_due = Some ''2024-01-10'', ihs_next_due = ''2024-01-13'',
          ihs_reschedule_if_missed = 0\<rparr>]\<rparr>"

text \<open>Scenario D: an interval habit that is rescheduled when missed, due since 2024-01-01.\<close>

definition scenarioD_habit :: habit_row where
  "scenarioD_habit =
     \<lparr>h_id = ''habit-d'', h_name = ''water plants'', h_schedule_type = interval,
      h_interval_days = Some 7, h_one_time_date = None,
      h_created_at = ''2023-12-25T08:00:00.000Z'', h_updated_at = ''2023-12-25T08:00:00.000Z''\<rparr>"

definition scenarioD_state :: interval_state_row where
  "scenarioD_state =
     \<lparr>ihs_habit_id = ''habit-d'', ihs_last_completed = None, ihs_last_due = None,
      ihs_next_due = ''2024-01-01'', ihs_reschedule_if_missed = 1\<rparr>"

definition scenarioD :: store where
  "scenarioD =
     \<lparr>habits = [scenarioD_habit], habit_days = [], habit_completions = [],
      interval_habit_state = [scenarioD_state]\<rparr>"

text \<open>A one-time habit for 2024-03-05, completed on that day.\<close>

definition oneTime_habit :: habit_row where
  "oneTime_habit =
     \<lparr>h_id = ''habit-f'', h_name = ''call the bank'', h_schedule_type = custom,
      h_interval_days = None, h_one_time_date = Some ''2024-03-05'',
      h_created_at = ''2024-03-05T07:30:00.000Z'', h_updated_at = ''2024-03-05T07:30:00.000Z''\<rparr>"

definition oneTime_store :: store where
  "oneTime_store =
     \<lparr>habits = [oneTime_habit], habit_days = [],
      habit_completions = [\<lparr>c_habit_id = ''habit-f'', c_completed_date = ''2024-03-05''\<rparr>],
      interval_habit_state = []\<rparr>"

text \<open>Scenario C completed a second time on the same day.\<close>

definition scenarioC_twice :: store where
  "scenarioC_twice =
     scenarioC\<lparr>interval_habit_state :=
        [\<lparr>ihs_habit_id = ''habit-b'', ihs_last_completed = Some ''2024-01-10'',
          ihs_last_due = Some ''2024-01-13'', ihs_next_due = ''2024-01-13'',
          ihs_reschedule_if_missed = 0\<rparr>]\<rparr>"

text \<open>The habit of Scenario B in a store that holds no interval state row for it.\<close>

definition noStateRow_store :: store where
  "noStateRow_store = scenarioB\<lparr>interval_habit_state := []\<rparr>"

text \<open>Scenario E: a daily habit completed on 2024-03-04 and 2024-03-05.\<close>

definition scenarioE :: store where
  "scenarioE =
     \<lparr>habits = [\<lparr>h_id = ''habit-e'', h_name = ''read'', h_schedule_type = daily,
          h_interval_days = None, h_one_time_date = None,
          h_created_at = ''2024-03-01T08:00:00.000Z'', h_updated_at = ''2024-03-01T08:00:00.000Z''\<rparr>],
      habit_days = [],
      habit_completions =
        [\<lparr>c_habit_id = ''habit-e'', c_completed_date = ''2024-03-04''\<rparr>,
         \<lparr>c_habit_id = ''habit-e'', c_completed_date = ''2024-03-05''\<rparr>],
      interval_habit_state = []\<rparr>"

text \<open>
  A custom habit created with the empty string as \<open>oneTimeDate\<close> and Monday as its
  day, and the store \<open>createHabit\<close> makes of it.
\<close>

definition blankOneTime :: NewHabit where
  "blankOneTime = NewCustomHabit ''stretch'' (Some []) [1]"

definition blankOneTime_store :: store where
  "blankOneTime_store =
     \<lparr>habits = [\<lparr>h_id = ''habit-x'', h_name = ''stretch'', h_schedule_type = custom,
          h_interval_days = None, h_one_time_date = Some [],
          h_created_at = ''2024-03-01T08:00:00.000Z'', h_updated_at = ''2024-03-01T08:00:00.000Z''\<rparr>],
      habit_days = [\<lparr>hd_habit_id = ''habit-x'', hd_day_of_week = 1\<rparr>],
      habit_completions = [], interval_habit_state = []\<rparr>"

section \<open>Calendar arithmetic\<close>

lemma month_cases:
  "1 \<le> (m::int) \<Longrightarrow> m \<le> 12 \<Longrightarrow>
   m = 1 \<or> m = 2 \<or> m = 3 \<or> m = 4 \<or> m = 5 \<or> m = 6 \<or> m = 7 \<or> m = 8 \<or> m = 9 \<or> m = 10 \<or> m = 11 \<or> m = 12"
  by arith

lemma daysInMonth_bounds: "28 \<le> daysInMonth y m \<and> daysInMonth y m \<le> 31"
  by (simp add: daysInMonth_def)

lemma daysBeforeMonth_Suc:
  "1 \<le> m \<Longrightarrow> m \<le> 11 \<Longrightarrow> daysBeforeMonth y (m + 1) = daysBeforeMonth y m + daysInMonth y m"
  using month_cases[of m] by (auto simp: daysBeforeMonth_def daysInMonth_def)

lemma daysBeforeMonth_12: "daysBeforeMonth y 12 + 31 = yearLength y"
  by (simp add: daysBeforeMonth_def yearLength_def)

lemma div_step:
  assumes n: "0 < (n::int)"
  shows "(x + 1) div n = x div n + (if (x + 1) mod n = 0 then 1 else 0)"
proof -
  define q where "q = x div n"
  define r where "r = x mod n"
  have e: "x = n * q + r" unfolding q_def r_def by simp
  have r: "0 \<le> r" "r < n" using n by (simp_all add: r_def)
  show ?thesis
  proof (cases "r + 1 = n")
    case True
    then have e1: "x + 1 = n * (q + 1) + 0" using e by (simp add: distrib_left)
    have "(x + 1) div n = q + 1" by (rule int_div_pos_eq[OF e1]) (use n in simp_all)
    moreover have "(x + 1) mod n = 0" by (rule int_mod_pos_eq[OF e1]) (use n in simp_all)
    ultimately show ?thesis by (simp add: q_def)
  next
    case False
    then have lt: "r + 1 < n" using r by simp
    have e1: "x + 1 = n * q + (r + 1)" using e by simp
    have "(x + 1) div n = q" by (rule int_div_pos_eq[OF e1]) (use r lt in simp_all)
    moreover have "(x + 1) mod n = r + 1" by (rule int_mod_pos_eq[OF e1]) (use r lt in simp_all)
    ultimately show ?thesis using r by (simp add: q_def)
  qed
qed

lemma div_step_year:
  assumes n: "0 < (n::int)" and k: "k mod n = 0"
  shows "(y + 1 - (k + 1)) div n = (y - (k + 1)) div n + (if y mod n = 0 then 1 else 0)"
proof -
  have "(y - k) mod n = (y mod n - k mod n) mod n" by (rule mod_diff_eq[symmetric])
  also have "\<dots> = y mod n" using k by simp
  finally have m: "(y - (k + 1) + 1) mod n = y mod n" by simp
  have e: "y + 1 - (k + 1) = y - (k + 1) + 1" by simp
  show ?thesis unfolding e using div_step[OF n, of "y - (k + 1)"] by (simp only: m)
qed

lemma mod400_100: "(y::int) mod 400 = 0 \<Longrightarrow> y mod 100 = 0"
  using mod_mod_cancel[of 100 400 y] by simp

lemma mod100_4: "(y::int) mod 100 = 0 \<Longrightarrow> y mod 4 = 0"
  using mod_mod_cancel[of 4 100 y] by simp

lemma dayFromYear_Suc: "dayFromYear (y + 1) = dayFromYear y + yearLength y"
proof -
  have a: "(y + 1 - 1969) div 4 = (y - 1969) div 4 + (if y mod 4 = 0 then 1 else 0)"
    using div_step_year[of 4 1968 y] by simp
  have b: "(y + 1 - 1901) div 100 = (y - 1901) div 100 + (if y mod 100 = 0 then 1 else 0)"
    using div_step_year[of 100 1900 y] by simp
  have c: "(y + 1 - 1601) div 400 = (y - 1601) div 400 + (if y mod 400 = 0 then 1 else 0)"
    using div_step_year[of 400 1600 y] by simp
  have d: "dayFromYear (y + 1) = dayFromYear y + 365 + (if y mod 4 = 0 then 1 else 0)
      - (if y mod 100 = 0 then 1 else 0) + (if y mod 400 = 0 then 1 else 0)"
    unfolding dayFromYear_def a b c by simp
  show ?thesis
  proof (cases "y mod 400 = 0")
    case True
    with mod400_100[of y] mod100_4[of y] show ?thesis
      by (simp add: d yearLength_def isLeap_def)
  next
    case False
    note f = this
    show ?thesis
    proof (cases "y mod 100 = 0")
      case True
      with f mod100_4[of y] show ?thesis by (simp add: d yearLength_def isLeap_def)
    next
      case False
      with f show ?thesis by (simp add: d yearLength_def isLeap_def)
    qed
  qed
qed

lemma dayFromYear_pred: "dayFromYear (y - 1) = dayFromYear y - yearLength (y - 1)"
  using dayFromYear_Suc[of "y - 1"] by simp

lemma daysInMonth_pos [simp]: "1 \<le> daysInMonth y m"
  by (simp add: daysInMonth_def)

lemma nextDay_valid: "validCivil c \<Longrightarrow> validCivil (nextDay c)"
  by (cases c) (auto simp: validCivil_def)

lemma nextDay_dayNumber: "validCivil c \<Longrightarrow> dayNumber (nextDay c) = dayNumber c + 1"
proof (cases c)
  case (fields y m d)
  assume v: "validCivil c"
  show ?thesis
  proof (cases "d < daysInMonth y m")
    case True
    then show ?thesis using fields by (simp add: dayNumber_def)
  next
    case False
    then have d: "d = daysInMonth y m" using v fields by (simp add: validCivil_def)
    show ?thesis
    proof (cases "m < 12")
      case True
      then show ?thesis using fields d v daysBeforeMonth_Suc[of m y]
        by (simp add: dayNumber_def validCivil_def)
    next
      case False
      then have m: "m = 12" using v fields by (simp add: validCivil_def)
      then have "d = 31" using d by (simp add: daysInMonth_def)
      then show ?thesis using fields m dayFromYear_Suc[of y] daysBeforeMonth_12[of y]
        by (simp add: dayNumber_def daysBeforeMonth_def)
    qed
  qed
qed

lemma prevDay_valid: "validCivil c \<Longrightarrow> validCivil (prevDay c)"
  by (cases c) (auto simp: validCivil_def daysInMonth_def)

lemma prevDay_dayNumber: "validCivil c \<Longrightarrow> dayNumber (prevDay c) = dayNumber c - 1"
proof (cases c)
  case (fields y m d)
  assume v: "validCivil c"
  show ?thesis
  proof (cases "1 < d")
    case True
    then show ?thesis using fields by (simp add: dayNumber_def)
  next
    case False
    then have d: "d = 1" using v fields by (simp add: validCivil_def)
    show ?thesis
    proof (cases "1 < m")
      case True
      then show ?thesis using fields d v daysBeforeMonth_Suc[of "m - 1" y]
        by (simp add: dayNumber_def validCivil_def)
    next
      case False
      then have m: "m = 1" using v fields by (simp add: validCivil_def)
      then show ?thesis using fields d dayFromYear_pred[of y] daysBeforeMonth_12[of "y - 1"]
        by (simp add: dayNumber_def daysBeforeMonth_def)
    qed
  qed
qed

lemma funpow_nextDay:
  "validCivil c \<Longrightarrow> validCivil ((nextDay ^^ k) c) \<and> dayNumber ((nextDay ^^ k) c) = dayNumber c + int k"
  by (induction k) (simp_all add: nextDay_valid nextDay_dayNumber)

lemma funpow_prevDay:
  "validCivil c \<Longrightarrow> validCivil ((prevDay ^^ k) c) \<and> dayNumber ((prevDay ^^ k) c) = dayNumber c - int k"
  by (induction k) (simp_all add: prevDay_valid prevDay_dayNumber)

lemma addDays_valid: "validCivil c \<Longrightarrow> validCivil (addDays n c)"
  by (simp add: addDays_def funpow_nextDay funpow_prevDay)

lemma addDays_dayNumber: "validCivil c \<Longrightarrow> dayNumber (addDays n c) = dayNumber c + n"
  by (simp add: addDays_def funpow_nextDay funpow_prevDay)

lemma civil_trichotomy: "civil_less a b \<or> a = b \<or> civil_less b a"
  by (cases a; cases b) auto

lemma yearLength_pos: "365 \<le> yearLength y"
  by (simp add: yearLength_def)

lemma dayFromYear_mono_nat: "dayFromYear y \<le> dayFromYear (y + int k)"
proof (induction k)
  case 0
  show ?case by simp
next
  case (Suc k)
  have e: "y + int (Suc k) = y + int k + 1" by simp
  have "dayFromYear (y + int (Suc k)) = dayFromYear (y + int k) + yearLength (y + int k)"
    unfolding e by (rule dayFromYear_Suc)
  with Suc yearLength_pos[of "y + int k"] show ?case by linarith
qed

lemma dayFromYear_mono: "y \<le> y' \<Longrightarrow> dayFromYear y \<le> dayFromYear y'"
  using dayFromYear_mono_nat[of y "nat (y' - y)"] by simp

lemma daysBeforeMonth_nonneg: "0 \<le> daysBeforeMonth y m"
  by (simp add: daysBeforeMonth_def)

lemma within_year: "validCivil (y, m, d) \<Longrightarrow> daysBeforeMonth y m + d \<le> yearLength y"
proof -
  assume v: "validCivil (y, m, d)"
  then have "daysBeforeMonth y m + daysInMonth y m \<le> yearLength y"
    using month_cases[of m] by (auto simp: validCivil_def daysBeforeMonth_def daysInMonth_def yearLength_def)
  with v show ?thesis by (simp add: validCivil_def)
qed

lemma daysBeforeMonth_mono_nat:
  "1 \<le> m \<Longrightarrow> m + int k \<le> 12 \<Longrightarrow> daysBeforeMonth y m \<le> daysBeforeMonth y (m + int k)"
proof (induction k)
  case 0
  show ?case by simp
next
  case (Suc k)
  have e: "m + int (Suc k) = m + int k + 1" by simp
  have "daysBeforeMonth y (m + int (Suc k)) = daysBeforeMonth y (m + int k) + daysInMonth y (m + int k)"
    unfolding e by (rule daysBeforeMonth_Suc) (use Suc.prems in simp_all)
  moreover have "daysBeforeMonth y m \<le> daysBeforeMonth y (m + int k)"
    by (rule Suc.IH) (use Suc.prems in simp_all)
  ultimately show ?case using daysInMonth_pos[of y "m + int k"] by linarith
qed

lemma month_step:
  assumes "1 \<le> m1" "m1 < m2" "m2 \<le> 12"
  shows "daysBeforeMonth y m1 + daysInMonth y m1 \<le> daysBeforeMonth y m2"
proof -
  have "daysBeforeMonth y (m1 + 1) \<le> daysBeforeMonth y (m1 + 1 + int (nat (m2 - m1 - 1)))"
    by (rule daysBeforeMonth_mono_nat) (use assms in simp_all)
  then show ?thesis using daysBeforeMonth_Suc[of m1 y] assms by simp
qed

lemma dayNumber_mono:
  assumes "validCivil a" "validCivil b" "civil_less a b"
  shows "dayNumber a < dayNumber b"
proof (cases a; cases b)
  fix y1 m1 d1 y2 m2 d2
  assume a: "a = (y1, m1, d1)" and b: "b = (y2, m2, d2)"
  have va: "1 \<le> m1" "m1 \<le> 12" "1 \<le> d1" "d1 \<le> daysInMonth y1 m1"
    and vb: "1 \<le> m2" "m2 \<le> 12" "1 \<le> d2" "d2 \<le> daysInMonth y2 m2"
    using assms(1,2) a b by (simp_all add: validCivil_def)
  consider "y1 < y2" | "y1 = y2" "m1 < m2" | "y1 = y2" "m1 = m2" "d1 < d2"
    using assms(3) a b by auto
  then show ?thesis
  proof cases
    case 1
    have "dayNumber a \<le> dayFromYear y1 + yearLength y1 - 1"
      using within_year[of y1 m1 d1] assms(1) a by (simp add: dayNumber_def)
    also have "\<dots> < dayFromYear (y1 + 1)" using dayFromYear_Suc[of y1] by simp
    also have "\<dots> \<le> dayFromYear y2" using 1 by (intro dayFromYear_mono) simp
    also have "\<dots> \<le> dayNumber b"
      using daysBeforeMonth_nonneg[of y2 m2] vb b by (simp add: dayNumber_def)
    finally show ?thesis .
  next
    case 2
    then show ?thesis using month_step[of m1 m2 y1] va vb a b by (simp add: dayNumber_def)
  next
    case 3
    then show ?thesis using a b by (simp add: dayNumber_def)
  qed
qed

lemma dayNumber_inj:
  "validCivil a \<Longrightarrow> validCivil b \<Longrightarrow> dayNumber a = dayNumber b \<Longrightarrow> a = b"
  using civil_trichotomy[of a b] dayNumber_mono[of a b] dayNumber_mono[of b a] by auto

lemma dayNumber_less_iff:
  "validCivil a \<Longrightarrow> validCivil b \<Longrightarrow> dayNumber a < dayNumber b \<longleftrightarrow> civil_less a b"
  using civil_trichotomy[of a b] dayNumber_mono[of a b] dayNumber_mono[of b a] by auto

lemma makeCivil_addDays:
  assumes v: "validCivil (y, m, d)"
  shows "makeCivil y (m - 1) (d + n) = addDays n (y, m, d)"
proof -
  have m: "(m - 1) div 12 = 0" "(m - 1) mod 12 = m - 1"
    using v by (simp_all add: validCivil_def)
  have v1: "validCivil (y, m, 1)" using v by (simp add: validCivil_def)
  have e: "makeCivil y (m - 1) (d + n) = addDays (d + n - 1) (y, m, 1)"
    by (simp add: makeCivil_def m)
  show ?thesis unfolding e
  proof (rule dayNumber_inj)
    show "validCivil (addDays (d + n - 1) (y, m, 1))" by (rule addDays_valid[OF v1])
    show "validCivil (addDays n (y, m, d))" by (rule addDays_valid[OF v])
    show "dayNumber (addDays (d + n - 1) (y, m, 1)) = dayNumber (addDays n (y, m, d))"
      unfolding addDays_dayNumber[OF v1] addDays_dayNumber[OF v] by (simp add: dayNumber_def)
  qed
qed

lemma setDate_plus:
  "validCivil c \<Longrightarrow> setDate (LocalDay c) (js_add (getDate (LocalDay c)) (Some n)) = LocalDay (addDays n c)"
  by (cases c) (simp add: makeCivil_addDays)

lemma dayBefore_addDays: "validCivil c \<Longrightarrow> dayBefore (LocalDay c) = LocalDay (addDays (- 1) c)"
  using makeCivil_addDays[of "fst c" "fst (snd c)" "snd (snd c)" "- 1"]
  by (cases c) (simp add: dayBefore_def)

section \<open>The order of date strings\<close>

lemma digit_char_less: "a < 10 \<Longrightarrow> b < 10 \<Longrightarrow> digit_char a < digit_char b \<longleftrightarrow> a < b"
  by (simp add: digit_char_def less_char_def)

lemma digit_char_eq: "a < 10 \<Longrightarrow> b < 10 \<Longrightarrow> digit_char a = digit_char b \<longleftrightarrow> a = b"
  using digit_char_less[of a b] digit_char_less[of b a] by (metis less_irrefl linorder_neqE_nat)

lemma digit_char_0: "digit_char 0 = CHR ''0''"
  by code_simp

lemma divmod_less:
  assumes k: "0 < (k::nat)"
  shows "a < b \<longleftrightarrow> a div k < b div k \<or> (a div k = b div k \<and> a mod k < b mod k)"
proof -
  define qa where "qa = a div k"
  define qb where "qb = b div k"
  define ra where "ra = a mod k"
  define rb where "rb = b mod k"
  have a: "a = k * qa + ra" and b: "b = k * qb + rb"
    by (simp_all add: qa_def qb_def ra_def rb_def)
  have r: "ra < k" "rb < k" using k by (simp_all add: ra_def rb_def)
  have "a < b \<longleftrightarrow> qa < qb \<or> (qa = qb \<and> ra < rb)"
  proof (cases "qa < qb")
    case True
    then have "k * (qa + 1) \<le> k * qb" by (intro mult_le_mono2) simp
    then have "a < b" using a b r by (simp add: distrib_left)
    with True show ?thesis by simp
  next
    case False
    show ?thesis
    proof (cases "qa = qb")
      case True
      then show ?thesis using a b by simp
    next
      case False
      with \<open>\<not> qa < qb\<close> have "qb < qa" by simp
      then have "k * (qb + 1) \<le> k * qa" by (intro mult_le_mono2) simp
      then have "b < a" using a b r by (simp add: distrib_left)
      with \<open>qb < qa\<close> show ?thesis by simp
    qed
  qed
  then show ?thesis by (simp add: qa_def qb_def ra_def rb_def)
qed

lemma divmod_eq:
  "(a::nat) = b \<longleftrightarrow> a div k = b div k \<and> a mod k = b mod k"
  by (metis div_mult_mod_eq)

lemma lex_append_less:
  fixes a b :: "'a::linorder list"
  shows "length a = length b \<Longrightarrow> a @ x < b @ y \<longleftrightarrow> a < b \<or> (a = b \<and> x < y)"
  by (induction a b rule: list_induct2) auto

lemma string_of_nat_small: "n < 10 \<Longrightarrow> string_of_nat n = [digit_char n]"
  by (subst string_of_nat.simps) simp

lemma string_of_nat_big:
  "10 \<le> n \<Longrightarrow> string_of_nat n = string_of_nat (n div 10) @ [digit_char (n mod 10)]"
  by (subst string_of_nat.simps) simp

lemma length_string_of_nat_pos: "0 < length (string_of_nat n)"
  by (subst string_of_nat.simps) simp

lemma length_string_of_nat_1: "length (string_of_nat n) = Suc 0 \<longleftrightarrow> n < 10"
  using length_string_of_nat_pos[of "n div 10"]
  by (cases "n < 10") (simp_all add: string_of_nat_small string_of_nat_big)

lemma string_of_nat_order:
  "length (string_of_nat a) = length (string_of_nat b) \<Longrightarrow>
   (string_of_nat a < string_of_nat b \<longleftrightarrow> a < b) \<and> (string_of_nat a = string_of_nat b \<longleftrightarrow> a = b)"
proof (induction a arbitrary: b rule: string_of_nat.induct)
  case (1 a)
  show ?case
  proof (cases "a < 10")
    case True
    then have "length (string_of_nat b) = Suc 0" using "1.prems" by (simp add: string_of_nat_small)
    then have "b < 10" by (simp add: length_string_of_nat_1)
    with True show ?thesis
      by (simp add: string_of_nat_small digit_char_less digit_char_eq)
  next
    case False
    then have a: "10 \<le> a" by simp
    have "length (string_of_nat b) \<noteq> Suc 0"
      using "1.prems" False length_string_of_nat_1[of a] by simp
    then have b: "10 \<le> b" by (simp add: length_string_of_nat_1)
    have len: "length (string_of_nat (a div 10)) = length (string_of_nat (b div 10))"
      using "1.prems" a b by (simp add: string_of_nat_big)
    note ih = "1.IH"[OF False len]
    have m: "a mod 10 < 10" "b mod 10 < 10" by simp_all
    have "string_of_nat a < string_of_nat b \<longleftrightarrow>
        a div 10 < b div 10 \<or> (a div 10 = b div 10 \<and> a mod 10 < b mod 10)"
      using ih by (simp add: string_of_nat_big a b lex_append_less[OF len] digit_char_less[OF m])
    moreover have "string_of_nat a = string_of_nat b \<longleftrightarrow> a div 10 = b div 10 \<and> a mod 10 = b mod 10"
      using ih by (simp add: string_of_nat_big a b digit_char_eq[OF m])
    ultimately show ?thesis
      using divmod_less[of 10 a b] divmod_eq[of a b 10] by simp
  qed
qed

lemma length_string_of_nat_4: "1000 \<le> n \<Longrightarrow> n \<le> 9999 \<Longrightarrow> length (string_of_nat n) = 4"
proof -
  assume n: "1000 \<le> n" "n \<le> 9999"
  have "n div 10 div 10 div 10 < 10" "10 \<le> n div 10 div 10" "10 \<le> n div 10" "10 \<le> n"
    using n by simp_all
  then show ?thesis
    by (simp add: string_of_nat_big[of n] string_of_nat_big[of "n div 10"]
        string_of_nat_big[of "n div 10 div 10"] string_of_nat_small[of "n div 10 div 10 div 10"])
qed

lemma padStart_two_digits: "n < 100 \<Longrightarrow> padStart 2 (CHR ''0'') (string_of_nat n) = two_digits n"
proof (cases "n < 10")
  case True
  then show ?thesis
    by (simp add: padStart_def string_of_nat_small two_digits_def digit_char_0 numeral_2_eq_2)
next
  case False
  assume "n < 100"
  with False have "n div 10 < 10" "10 \<le> n" by simp_all
  then show ?thesis
    by (simp add: padStart_def string_of_nat_big[of n] string_of_nat_small two_digits_def)
qed

lemma two_digits_order:
  "a < 100 \<Longrightarrow> b < 100 \<Longrightarrow>
   (two_digits a < two_digits b \<longleftrightarrow> a < b) \<and> (two_digits a = two_digits b \<longleftrightarrow> a = b)"
proof -
  assume "a < 100" "b < 100"
  then have d: "a div 10 < 10" "b div 10 < 10" "a mod 10 < 10" "b mod 10 < 10" by simp_all
  show ?thesis
    using divmod_less[of 10 a b] divmod_eq[of a b 10]
    by (simp add: two_digits_def digit_char_less[OF d(1,2)] digit_char_less[OF d(3,4)]
        digit_char_eq[OF d(1,2)] digit_char_eq[OF d(3,4)])
qed

lemma format_expand:
  assumes "inRange (y, m, d)"
  shows "formatDateString (LocalDay (y, m, d)) =
     string_of_nat (nat y) @ CHR ''-'' # two_digits (nat m) @ CHR ''-'' # two_digits (nat d)"
proof -
  have b: "0 \<le> y" "1 \<le> m" "m \<le> 12" "1 \<le> d" "d \<le> 31"
    using assms daysInMonth_bounds[of y m] by (auto simp: inRange_def validCivil_def)
  then have "nat m < 100" "nat d < 100" by simp_all
  then show ?thesis using b
    by (simp add: formatDateString_def String_js_def string_of_int_def padStart_two_digits)
qed

lemma format_order:
  assumes a: "inRange a" and b: "inRange b"
  shows "(formatDateString (LocalDay a) < formatDateString (LocalDay b) \<longleftrightarrow> civil_less a b)
     \<and> (formatDateString (LocalDay a) = formatDateString (LocalDay b) \<longleftrightarrow> a = b)"
proof (cases a; cases b)
  fix y1 m1 d1 y2 m2 d2
  assume ea: "a = (y1, m1, d1)" and eb: "b = (y2, m2, d2)"
  have ba: "1000 \<le> y1" "y1 \<le> 9999" "1 \<le> m1" "m1 \<le> 12" "1 \<le> d1" "d1 \<le> 31"
    using a ea daysInMonth_bounds[of y1 m1] by (auto simp: inRange_def validCivil_def)
  have bb: "1000 \<le> y2" "y2 \<le> 9999" "1 \<le> m2" "m2 \<le> 12" "1 \<le> d2" "d2 \<le> 31"
    using b eb daysInMonth_bounds[of y2 m2] by (auto simp: inRange_def validCivil_def)
  have ly: "length (string_of_nat (nat y1)) = length (string_of_nat (nat y2))"
    using ba bb by (simp add: length_string_of_nat_4)
  have lm: "length (two_digits (nat m1)) = length (two_digits (nat m2))"
    by (simp add: two_digits_def)
  note oy = string_of_nat_order[OF ly]
  have om: "(two_digits (nat m1) < two_digits (nat m2) \<longleftrightarrow> m1 < m2)
      \<and> (two_digits (nat m1) = two_digits (nat m2) \<longleftrightarrow> m1 = m2)"
    using two_digits_order[of "nat m1" "nat m2"] ba bb by auto
  have od: "(two_digits (nat d1) < two_digits (nat d2) \<longleftrightarrow> d1 < d2)
      \<and> (two_digits (nat d1) = two_digits (nat d2) \<longleftrightarrow> d1 = d2)"
    using two_digits_order[of "nat d1" "nat d2"] ba bb by auto
  have yy: "(nat y1 < nat y2 \<longleftrightarrow> y1 < y2) \<and> (nat y1 = nat y2 \<longleftrightarrow> y1 = y2)"
    using ba bb by auto
  show ?thesis
    unfolding ea eb format_expand[OF a[unfolded ea]] format_expand[OF b[unfolded eb]]
    using oy om od yy
    by (simp add: lex_append_less[OF ly] lex_append_less[OF lm]
        append_eq_append_conv[OF disjI1[OF ly]] append_eq_append_conv[OF disjI1[OF lm]])
qed

lemma format_less_iff:
  "inRange a \<Longrightarrow> inRange b \<Longrightarrow>
   formatDateString (LocalDay a) < formatDateString (LocalDay b) \<longleftrightarrow> dayNumber a < dayNumber b"
  using format_order[of a b] dayNumber_less_iff[of a b] by (simp add: inRange_def)

lemma format_eq_iff:
  "inRange a \<Longrightarrow> inRange b \<Longrightarrow>
   formatDateString (LocalDay a) = formatDateString (LocalDay b) \<longleftrightarrow> a = b"
  using format_order[of a b] by simp

lemma format_le_iff:
  "inRange a \<Longrightarrow> inRange b \<Longrightarrow>
   formatDateString (LocalDay a) \<le> formatDateString (LocalDay b) \<longleftrightarrow> dayNumber a \<le> dayNumber b"
  using format_less_iff[of b a] by (simp add: not_less[symmetric])

section \<open>Evaluations on the scenario dates\<close>

lemma format_2024_01_10: "formatDateString (LocalDay (2024, 1, 10)) = ''2024-01-10''"
  by code_simp

lemma format_2024_01_07: "formatDateString (LocalDay (2024, 1, 7)) = ''2024-01-07''"
  by code_simp

lemma format_2024_01_13: "formatDateString (LocalDay (2024, 1, 13)) = ''2024-01-13''"
  by code_simp

lemma format_2024_01_15: "formatDateString (LocalDay (2024, 1, 15)) = ''2024-01-15''"
  by code_simp

lemma format_2024_03_05: "formatDateString (LocalDay (2024, 3, 5)) = ''2024-03-05''"
  by code_simp

lemma getDay_2024_01_10: "getDay (LocalDay (2024, 1, 10)) = Some 3"
  by code_simp

lemma daysPassed_B: "daysPassed ''2024-01-01'' (LocalDay (2024, 1, 10)) = Some 9"
  by code_simp

lemma newDueDate_B: "newDueDate ''2024-01-01'' (Some 3) (LocalDay (2024, 1, 10)) = LocalDay (2024, 1, 10)"
  by code_simp

lemma lastDueDate_B: "lastDueDate (LocalDay (2024, 1, 10)) (Some 3) = LocalDay (2024, 1, 7)"
  by code_simp

lemma makeCivil_2024_0_13: "makeCivil 2024 0 13 = (2024, 1, 13)"
  by code_simp

lemma createHabit_B:
  "createHabit empty_store ''habit-b'' ''2024-01-01T08:00:00.000Z'' (LocalDay (2024, 1, 1))
     (NewIntervalHabit ''run'' None 3 (Some ''2024-01-01'') (Some False))
   = (scenarioB, Inr \<lparr>hId = ''habit-b'', hName = ''run'', scheduleType = interval,
        intervalDays = Some 3, oneTimeDate = None,
        createdAt = ''2024-01-01T08:00:00.000Z'', updatedAt = ''2024-01-01T08:00:00.000Z''\<rparr>)"
  by (simp add: createHabit_def scenarioB_def empty_store_def insertHabit_def
      insertIntervalState_def createdHabit_def)

lemma autoAdvance_B:
  "autoAdvanceOverdueIntervalHabits scenarioB (LocalDay (2024, 1, 10)) = scenarioB_advanced"
  by (simp add: autoAdvanceOverdueIntervalHabits_def overdueHabits_def scenarioB_def
      scenarioB_advanced_def advanceHabit_def updateDue_def format_2024_01_10 newDueDate_B
      lastDueDate_B format_2024_01_07)

lemma completeHabit_C:
  "completeHabit scenarioB_advanced ''habit-b'' (LocalDay (2024, 1, 10)) = Inr scenarioC"
  unfolding completeHabit_def Let_def format_2024_01_10
  by (simp add: insertCompletionOrIgnore_def scenarioB_advanced_def scenarioB_def scenarioC_def
      updateCompleted_def makeCivil_2024_0_13 format_2024_01_13)

section \<open>What the operations leave alone\<close>

lemma updateDue_frame [simp]:
  "habits (updateDue n l i s) = habits s"
  "habit_days (updateDue n l i s) = habit_days s"
  "habit_completions (updateDue n l i s) = habit_completions s"
  by (simp_all add: updateDue_def)

lemma advanceHabit_frame [simp]:
  "habits (advanceHabit d x s) = habits s"
  "habit_days (advanceHabit d x s) = habit_days s"
  "habit_completions (advanceHabit d x s) = habit_completions s"
  by (simp_all add: advanceHabit_def Let_def split: prod.splits)

lemma fold_advance_frame:
  "habits (fold (advanceHabit d) xs s) = habits s \<and>
   habit_days (fold (advanceHabit d) xs s) = habit_days s \<and>
   habit_completions (fold (advanceHabit d) xs s) = habit_completions s"
  by (induction xs arbitrary: s) simp_all

lemma autoAdvance_frame [simp]:
  "habits (autoAdvanceOverdueIntervalHabits s d) = habits s"
  "habit_days (autoAdvanceOverdueIntervalHabits s d) = habit_days s"
  "habit_completions (autoAdvanceOverdueIntervalHabits s d) = habit_completions s"
  by (simp_all add: autoAdvanceOverdueIntervalHabits_def fold_advance_frame)

lemma updateCompleted_frame [simp]:
  "habit_completions (updateCompleted a b c i s) = habit_completions s"
  "habits (updateCompleted a b c i s) = habits s"
  "habit_days (updateCompleted a b c i s) = habit_days s"
  by (simp_all add: updateCompleted_def)

lemma withCompleted_sel [simp]:
  "hId (withCompleted (mapRowToHabit h) b) = h_id h"
  "scheduleType (withCompleted (mapRowToHabit h) b) = h_schedule_type h"
  "oneTimeDate (withCompleted (mapRowToHabit h) b) = h_one_time_date h"
  "completed (withCompleted (mapRowToHabit h) b) = b"
  by (simp_all add: withCompleted_def mapRowToHabit_def Habit.defs HabitWithCompletion.defs)

section \<open>The rows of the due query\<close>

lemma set_dueRows:
  "set (dueRows s dow ds) = {hc \<in> set (joinCompletions s ds). dueWhere s dow ds hc}"
  by (simp add: dueRows_def)

lemma joinCompletions_covers:
  "h \<in> set (habits s) \<Longrightarrow> \<exists>c. (h, c) \<in> set (joinCompletions s ds)"
  unfolding joinCompletions_def
  by (cases "filter (\<lambda>c. h_id h = c_habit_id c \<and> c_completed_date c = ds) (habit_completions s)")
     (force simp: image_iff)+

lemma due_row_returned:
  assumes "h \<in> set (habits s)"
    and "\<And>c. dueWhere (autoAdvanceOverdueIntervalHabits s d) (getDay d) (formatDateString d) (h, c)"
  shows "\<exists>hw \<in> set (snd (getHabitsForDate s d)). hId hw = h_id h \<and> oneTimeDate hw = h_one_time_date h"
proof -
  let ?s = "autoAdvanceOverdueIntervalHabits s d"
  from assms(1) have "h \<in> set (habits ?s)" by simp
  then obtain cr where j: "(h, cr) \<in> set (joinCompletions ?s (formatDateString d))"
    using joinCompletions_covers by blast
  with assms(2) have "(h, cr) \<in> set (dueRows ?s (getDay d) (formatDateString d))"
    by (simp add: set_dueRows)
  then have "withCompleted (mapRowToHabit h) (cr \<noteq> None) \<in> set (snd (getHabitsForDate s d))"
    by (force simp: getHabitsForDate_def Let_def image_iff)
  then show ?thesis
    by (rule bexI[rotated]) simp
qed

section \<open>Rows the advancer does not select\<close>

lemma updateDue_other:
  "r \<in> set (interval_habit_state s) \<Longrightarrow> ihs_habit_id r \<noteq> i \<Longrightarrow>
   r \<in> set (interval_habit_state (updateDue n l i s))"
  by (force simp: updateDue_def image_iff)

lemma advanceHabit_other:
  "r \<in> set (interval_habit_state s) \<Longrightarrow> ihs_habit_id r \<noteq> fst x \<Longrightarrow>
   r \<in> set (interval_habit_state (advanceHabit d x s))"
  by (cases x) (simp add: advanceHabit_def Let_def updateDue_other)

lemma fold_advance_other:
  "r \<in> set (interval_habit_state s) \<Longrightarrow> \<forall>x \<in> set xs. ihs_habit_id r \<noteq> fst x \<Longrightarrow>
   r \<in> set (interval_habit_state (fold (advanceHabit d) xs s))"
  by (induction xs arbitrary: s) (simp_all add: advanceHabit_other)

lemma overdueHabits_source:
  "x \<in> set (overdueHabits s ds) \<Longrightarrow>
   \<exists>r \<in> set (interval_habit_state s). ihs_habit_id r = fst x \<and> ihs_reschedule_if_missed r = 0
      \<and> ihs_next_due r = fst (snd x) \<and> ihs_next_due r < ds
      \<and> (\<exists>h \<in> set (habits s). h_id h = ihs_habit_id r \<and> h_interval_days h = snd (snd x))"
  by (fastforce simp: overdueHabits_def split: if_splits)

lemma distinct_key_eq:
  "distinct (map f xs) \<Longrightarrow> x \<in> set xs \<Longrightarrow> y \<in> set xs \<Longrightarrow> f x = f y \<Longrightarrow> x = y"
  by (meson distinct_map inj_onD)

lemma advance_keeps_reschedule_rows:
  assumes d: "distinct (map ihs_habit_id (interval_habit_state s))"
    and r: "r \<in> set (interval_habit_state s)" and m: "ihs_reschedule_if_missed r \<noteq> 0"
  shows "r \<in> set (interval_habit_state (autoAdvanceOverdueIntervalHabits s d'))"
  unfolding autoAdvanceOverdueIntervalHabits_def
proof (rule fold_advance_other[OF r], rule ballI)
  fix x assume "x \<in> set (overdueHabits s (formatDateString d'))"
  then obtain r' where r': "r' \<in> set (interval_habit_state s)" "ihs_habit_id r' = fst x"
      "ihs_reschedule_if_missed r' = 0"
    using overdueHabits_source by blast
  show "ihs_habit_id r \<noteq> fst x"
  proof
    assume "ihs_habit_id r = fst x"
    with r' have "r = r'" using distinct_key_eq[OF d r r'(1)] by simp
    with m r'(3) show False by simp
  qed
qed

section \<open>One step of the advancer\<close>

lemma year_le: 
  assumes "validCivil a" "validCivil b" "dayNumber a \<le> dayNumber b"
  shows "fst a \<le> fst b"
proof (rule ccontr)
  assume "\<not> fst a \<le> fst b"
  then have "civil_less b a" by (cases a; cases b) simp
  then have "dayNumber b < dayNumber a" using assms dayNumber_mono by blast
  with assms(3) show False by simp
qed

lemma inRange_between:
  assumes "inRange a" "validCivil c" "dayNumber a \<le> dayNumber c" "dayNumber c \<le> dayNumber (9999, 12, 31)"
  shows "inRange c"
proof -
  have v: "validCivil (9999, 12, 31)" by (simp add: validCivil_def daysInMonth_def)
  have "fst a \<le> fst c" using year_le[OF _ assms(2,3)] assms(1) by (simp add: inRange_def)
  moreover have "fst c \<le> 9999" using year_le[OF assms(2) v assms(4)] by simp
  ultimately show ?thesis using assms(1,2) by (simp add: inRange_def)
qed

lemma ceil_div_bounds:
  assumes "0 < (iv::int)"
  shows "p \<le> - ((- p) div iv) * iv \<and> - ((- p) div iv) * iv < p + iv"
proof -
  define q where "q = (- p) div iv"
  define r where "r = (- p) mod iv"
  have e: "- p = iv * q + r" by (simp add: q_def r_def)
  have r: "0 \<le> r" "r < iv" using assms by (simp_all add: r_def)
  have "- q * iv = p + r" using e by (simp add: algebra_simps)
  then show ?thesis using r unfolding q_def by simp
qed

lemma makeDay_valid: "validCivil (y, m, d) \<Longrightarrow> makeDay y (m - 1) d = dayNumber (y, m, d)"
  by (simp add: makeDay_def validCivil_def dayNumber_def)

lemma fullYear_inRange: "1000 \<le> y \<Longrightarrow> fullYear y = y"
  by (simp add: fullYear_def)

lemma newDate_valid:
  "validCivil (y, m, d) \<Longrightarrow> 1000 \<le> y \<Longrightarrow>
   newDate (Some y) (Some (m - 1)) (Some d) = LocalDay (y, m, d)"
  using makeCivil_addDays[of y m d 0] by (simp add: newDate_def fullYear_inRange addDays_def)

lemma daysPassed_valid:
  assumes p: "parseYMD nd = (Some y, Some m, Some d)" and c: "inRange (y, m, d)"
    and t: "inRange today"
  shows "daysPassed nd (LocalDay today) = Some (dayNumber today - dayNumber (y, m, d))"
proof (cases today)
  case (fields ty tm td)
  have vt: "validCivil (ty, tm, td)" "1000 \<le> ty" using t fields by (simp_all add: inRange_def)
  have vc: "validCivil (y, m, d)" "1000 \<le> y" using c by (simp_all add: inRange_def)
  have e: "86400000 * a - 86400000 * b = 86400000 * (a - b)" for a b :: int
    by (rule right_diff_distrib[symmetric])
  have u1: "Date_UTC (Some y) (js_sub (Some m) (Some 1)) (Some d) = Some (86400000 * dayNumber (y, m, d))"
    by (simp add: Date_UTC_def fullYear_inRange vc makeDay_valid)
  have u2: "Date_UTC (getFullYear (LocalDay (ty, tm, td))) (getMonth (LocalDay (ty, tm, td)))
       (getDate (LocalDay (ty, tm, td))) = Some (86400000 * dayNumber (ty, tm, td))"
    by (simp add: Date_UTC_def fullYear_inRange vt makeDay_valid)
  show ?thesis
    unfolding fields daysPassed_def p prod.case Let_def u1 u2
    by (simp only: js_sub.simps option.case e) simp
qed

lemma newDueDate_valid:
  assumes p: "parseYMD nd = (Some y, Some m, Some d)" and c: "inRange (y, m, d)"
    and t: "inRange today" and iv: "0 < iv"
  shows "newDueDate nd (Some iv) (LocalDay today) =
     LocalDay (addDays (- ((- (dayNumber today - dayNumber (y, m, d))) div iv) * iv) (y, m, d))"
proof -
  have vc: "validCivil (y, m, d)" "1000 \<le> y" using c by (simp_all add: inRange_def)
  have 1: "newDate (Some y) (js_sub (Some m) (Some 1)) (Some d) = LocalDay (y, m, d)"
    by (simp add: newDate_valid[OF vc])
  have 2: "js_mul (intervalsToAdd (Some (dayNumber today - dayNumber (y, m, d))) (Some iv)) (Some iv)
      = Some (- ((- (dayNumber today - dayNumber (y, m, d))) div iv) * iv)"
    using iv by (simp add: intervalsToAdd_def)
  show ?thesis
    unfolding newDueDate_def p daysPassed_valid[OF p c t]
    by (simp only: prod.case Let_def 1 2 setDate_plus[OF vc(1)])
qed

lemma parsesToDate_parts:
  assumes "parsesToDate str"
  obtains y m d where "parseYMD str = (Some y, Some m, Some d)" "inRange (y, m, d)"
proof -
  obtain a b c where e: "parseYMD str = (a, b, c)" by (cases "parseYMD str") auto
  with assms show ?thesis
    by (cases a; cases b; cases c) (simp_all add: parsesToDate_def that)
qed

lemma advanceableRow_next_due:
  assumes t: "inRange today" and g: "advanceableRow today (i, nd, ivo)"
  shows "formatDateString (LocalDay today) \<le> formatDateString (newDueDate nd ivo (LocalDay today))"
proof -
  from g have pd: "parsesToDate nd" by (simp add: advanceableRow_def)
  from g obtain iv where ivo: "ivo = Some iv" and iv: "0 < iv"
    and b: "dayNumber today + iv \<le> dayNumber (9999, 12, 31)"
    by (cases ivo) (simp_all add: advanceableRow_def)
  from pd obtain y m d where p: "parseYMD nd = (Some y, Some m, Some d)" and c: "inRange (y, m, d)"
    by (rule parsesToDate_parts)
  define k where "k = - ((- (dayNumber today - dayNumber (y, m, d))) div iv) * iv"
  define c' where "c' = addDays k (y, m, d)"
  have vc: "validCivil (y, m, d)" using c by (simp add: inRange_def)
  have nd: "newDueDate nd ivo (LocalDay today) = LocalDay c'"
    unfolding ivo c'_def k_def by (rule newDueDate_valid[OF p c t iv])
  have kb: "dayNumber today - dayNumber (y, m, d) \<le> k \<and> k < dayNumber today - dayNumber (y, m, d) + iv"
    unfolding k_def by (rule ceil_div_bounds[OF iv])
  have v': "validCivil c'" unfolding c'_def by (rule addDays_valid[OF vc])
  have dn: "dayNumber c' = dayNumber (y, m, d) + k" unfolding c'_def by (rule addDays_dayNumber[OF vc])
  have r': "inRange c'"
    by (rule inRange_between[OF t v']) (use dn kb b in simp_all)
  have "dayNumber today \<le> dayNumber c'" using dn kb by linarith
  then show ?thesis unfolding nd by (simp only: format_le_iff[OF t r'])
qed

lemma overdueHabits_selects:
  "r \<in> set (interval_habit_state s) \<Longrightarrow> h \<in> set (habits s) \<Longrightarrow> h_id h = ihs_habit_id r \<Longrightarrow>
   ihs_reschedule_if_missed r = 0 \<Longrightarrow> ihs_next_due r < ds \<Longrightarrow>
   (ihs_habit_id r, ihs_next_due r, h_interval_days h) \<in> set (overdueHabits s ds)"
  by (force simp: overdueHabits_def)

lemma advanceHabit_rows:
  assumes "r' \<in> set (interval_habit_state (advanceHabit d (i, nd, ivo) s))"
  shows "(r' \<in> set (interval_habit_state s) \<and> ihs_habit_id r' \<noteq> i)
     \<or> (ihs_habit_id r' = i \<and> ihs_next_due r' = formatDateString (newDueDate nd ivo d))"
  using assms by (auto simp: advanceHabit_def updateDue_def Let_def)

lemma fold_advance_rows:
  assumes "\<forall>x \<in> set xs. advanceableRow today x" and "inRange today"
    and "r' \<in> set (interval_habit_state (fold (advanceHabit (LocalDay today)) xs s))"
  shows "(r' \<in> set (interval_habit_state s) \<and> ihs_habit_id r' \<notin> fst ` set xs)
     \<or> formatDateString (LocalDay today) \<le> ihs_next_due r'"
  using assms
proof (induction xs arbitrary: s)
  case Nil
  then show ?case by simp
next
  case (Cons x xs)
  obtain i nd ivo where x: "x = (i, nd, ivo)" by (cases x) auto
  have g: "advanceableRow today (i, nd, ivo)" using Cons.prems(1) x by simp
  let ?s1 = "advanceHabit (LocalDay today) x s"
  have "(r' \<in> set (interval_habit_state ?s1) \<and> ihs_habit_id r' \<notin> fst ` set xs)
     \<or> formatDateString (LocalDay today) \<le> ihs_next_due r'"
    by (rule Cons.IH) (use Cons.prems in simp_all)
  then show ?case
  proof
    assume a: "r' \<in> set (interval_habit_state ?s1) \<and> ihs_habit_id r' \<notin> fst ` set xs"
    then have "(r' \<in> set (interval_habit_state s) \<and> ihs_habit_id r' \<noteq> i)
       \<or> (ihs_habit_id r' = i \<and> ihs_next_due r' = formatDateString (newDueDate nd ivo (LocalDay today)))"
      using advanceHabit_rows[of r' "LocalDay today" i nd ivo s] x by simp
    then show ?thesis
      using a x advanceableRow_next_due[OF Cons.prems(2) g] by auto
  next
    assume "formatDateString (LocalDay today) \<le> ihs_next_due r'"
    then show ?thesis by simp
  qed
qed

lemma overdueHabits_empty:
  assumes "\<And>r h. r \<in> set (interval_habit_state s) \<Longrightarrow> h \<in> set (habits s) \<Longrightarrow>
     h_id h = ihs_habit_id r \<Longrightarrow> ihs_reschedule_if_missed r = 0 \<Longrightarrow> \<not> ihs_next_due r < ds"
  shows "overdueHabits s ds = []"
proof (rule ccontr)
  assume "overdueHabits s ds \<noteq> []"
  then obtain x where "x \<in> set (overdueHabits s ds)" by (cases "overdueHabits s ds") auto
  then show False using overdueHabits_source[of x s ds] assms by blast
qed

section \<open>The streak loop\<close>

lemma canonicalDate_format:
  assumes "canonicalDate str"
  obtains c where "inRange c" "str = formatDateString (LocalDay c)"
proof -
  obtain a b c where e: "parseYMD str = (a, b, c)" by (cases "parseYMD str") auto
  with assms show ?thesis
    by (cases a; cases b; cases c) (auto simp: canonicalDate_def intro: that)
qed

lemma inRange_back:
  assumes e: "inRange e" and k: "inRange (addDays (- k) e)" and i: "0 \<le> i" "i \<le> k"
  shows "inRange (addDays (- i) e)"
proof -
  have ve: "validCivil e" using e by (simp add: inRange_def)
  have v: "validCivil (addDays (- i) e)" by (rule addDays_valid[OF ve])
  have "fst (addDays (- k) e) \<le> fst (addDays (- i) e)"
    by (rule year_le) (use ve i k in \<open>simp_all add: addDays_valid addDays_dayNumber inRange_def\<close>)
  moreover have "fst (addDays (- i) e) \<le> fst e"
    by (rule year_le) (use ve i in \<open>simp_all add: addDays_valid addDays_dayNumber\<close>)
  ultimately show ?thesis using e k v by (simp add: inRange_def)
qed

lemma addDays_addDays:
  "validCivil c \<Longrightarrow> addDays a (addDays b c) = addDays (a + b) c"
  by (rule dayNumber_inj) (simp_all add: addDays_valid addDays_dayNumber)

lemma streakLoop_counts:
  assumes "sorted_wrt (>) L"
    and "\<forall>x \<in> set L. canonicalDate x"
    and "\<forall>x \<in> set L. x \<le> formatDateString (LocalDay e)"
    and "inRange e" and "inRange (addDays (- int k) e)"
    and "\<forall>i < k. formatDateString (LocalDay (addDays (- int i) e)) \<in> set L"
    and "formatDateString (LocalDay (addDays (- int k) e)) \<notin> set L"
    and "0 < n \<or> 0 < k"
  shows "streakLoop L n (LocalDay e) = n + k"
  using assms
proof (induction L arbitrary: e k n)
  case Nil
  then have "k = 0" by (cases k) auto
  then show ?case by simp
next
  case (Cons x xs)
  have ve: "validCivil e" using Cons.prems(4) by (simp add: inRange_def)
  have e0: "addDays 0 e = e" by (simp add: addDays_def)
  show ?case
  proof (cases k)
    case 0
    then have "x \<noteq> formatDateString (LocalDay e)" using Cons.prems(7) e0 by auto
    then show ?thesis using 0 Cons.prems(8) by simp
  next
    case (Suc k')
    then have "formatDateString (LocalDay e) \<in> set (x # xs)" using Cons.prems(6) e0 by force
    moreover have "\<forall>y \<in> set xs. y < x" using Cons.prems(1) by simp
    moreover have "x \<le> formatDateString (LocalDay e)" using Cons.prems(3) by simp
    ultimately have x: "x = formatDateString (LocalDay e)" by auto
    let ?e1 = "addDays (- 1) e"
    have r1: "inRange ?e1"
      by (rule inRange_back[OF Cons.prems(4,5)]) (use Suc in simp_all)
    have db: "dayBefore (LocalDay e) = LocalDay ?e1" by (rule dayBefore_addDays[OF ve])
    have shift: "addDays (- int i) ?e1 = addDays (- int (Suc i)) e" for i
    proof -
      have "- int i + - 1 = - int (Suc i)" by simp
      then show ?thesis using addDays_addDays[OF ve, of "- int i" "- 1"] by (simp only:)
    qed
    have "streakLoop xs (n + 1) (LocalDay ?e1) = (n + 1) + k'"
    proof (rule Cons.IH)
      show "sorted_wrt (>) xs" using Cons.prems(1) by simp
      show "\<forall>y \<in> set xs. canonicalDate y" using Cons.prems(2) by simp
      show "\<forall>y \<in> set xs. y \<le> formatDateString (LocalDay ?e1)"
      proof
        fix y assume y: "y \<in> set xs"
        then have lt: "y < formatDateString (LocalDay e)" using Cons.prems(1) x by simp
        from y Cons.prems(2) obtain c where c: "inRange c" "y = formatDateString (LocalDay c)"
          using canonicalDate_format by (metis list.set_intros(2))
        have "dayNumber c < dayNumber e" using lt c format_less_iff[OF c(1) Cons.prems(4)] by simp
        then have "dayNumber c \<le> dayNumber ?e1" using addDays_dayNumber[OF ve, of "- 1"] by simp
        then show "y \<le> formatDateString (LocalDay ?e1)" using c format_le_iff[OF c(1) r1] by simp
      qed
      show "inRange ?e1" by (rule r1)
      show "inRange (addDays (- int k') ?e1)" using Cons.prems(5) unfolding Suc shift[of k'] .
      show "\<forall>i < k'. formatDateString (LocalDay (addDays (- int i) ?e1)) \<in> set xs"
      proof (intro allI impI)
        fix i assume i: "i < k'"
        then have si: "Suc i < k" using Suc by simp
        then have m: "formatDateString (LocalDay (addDays (- int (Suc i)) e)) \<in> set (x # xs)"
          using Cons.prems(6) by blast
        have ri: "inRange (addDays (- int (Suc i)) e)"
          by (rule inRange_back[OF Cons.prems(4,5)]) (use si in simp_all)
        have "addDays (- int (Suc i)) e \<noteq> e"
          using addDays_dayNumber[OF ve, of "- int (Suc i)"] by auto
        then have "formatDateString (LocalDay (addDays (- int (Suc i)) e)) \<noteq> x"
          unfolding x using format_eq_iff[OF ri Cons.prems(4)] by simp
        with m show "formatDateString (LocalDay (addDays (- int i) ?e1)) \<in> set xs"
          unfolding shift by (simp del: of_nat_Suc)
      qed
      have "formatDateString (LocalDay (addDays (- int (Suc k')) e)) \<notin> set (x # xs)"
        using Cons.prems(7) unfolding Suc .
      then show "formatDateString (LocalDay (addDays (- int k') ?e1)) \<notin> set xs"
        unfolding shift[of k'] by (simp del: of_nat_Suc)
      show "0 < n + 1 \<or> 0 < k'" by simp
    qed
    then show ?thesis using x db Suc by simp
  qed
qed

lemma set_streakCompletions:
  "set (streakCompletions s h today) = {d. hasCompletion s h d \<and> d \<le> today}"
  by (auto simp: streakCompletions_def hasCompletion_def list_ex_iff)

lemma sorted_streakCompletions:
  assumes "distinct (map c_completed_date (filter (\<lambda>c. c_habit_id c = h) (habit_completions s)))"
  shows "sorted_wrt (>) (streakCompletions s h today)"
proof -
  let ?M = "map c_completed_date
     (filter (\<lambda>c. c_habit_id c = h \<and> c_completed_date c \<le> today) (habit_completions s))"
  have e: "filter (\<lambda>c. c_habit_id c = h \<and> c_completed_date c \<le> today) (habit_completions s)
      = filter (\<lambda>c. c_completed_date c \<le> today) (filter (\<lambda>c. c_habit_id c = h) (habit_completions s))"
    by (simp add: conj_commute)
  have "distinct ?M" unfolding e by (rule distinct_map_filter[OF assms])
  then have "sorted_wrt (<) (sort ?M)" by (simp add: strict_sorted_iff)
  then show ?thesis by (simp add: streakCompletions_def sorted_wrt_rev)
qed

lemma streakLoop_skip_today:
  "x \<noteq> formatDateString e \<Longrightarrow>
   streakLoop (x # xs) 0 e =
     (if x = formatDateString (dayBefore e) then streakLoop (x # xs) 0 (dayBefore e) else 0)"
  by (simp add: Let_def)

section \<open>Completions\<close>

lemma insertCompletion_has:
  "insertCompletionOrIgnore i ds s = Inr s1 \<Longrightarrow>
   list_ex (\<lambda>c. c_habit_id c = i \<and> c_completed_date c = ds) (habit_completions s1)"
  by (auto simp: insertCompletionOrIgnore_def split: if_splits)

lemma completeHabit_has:
  "completeHabit s i d = Inr s1 \<Longrightarrow>
   list_ex (\<lambda>c. c_habit_id c = i \<and> c_completed_date c = formatDateString d) (habit_completions s1)"
  by (auto simp: completeHabit_def Let_def dest!: insertCompletion_has
      split: sum.splits option.splits if_splits)

lemma find_distinct_key:
  "distinct (map f xs) \<Longrightarrow> r \<in> set xs \<Longrightarrow> f r = k \<Longrightarrow> find (\<lambda>x. f x = k) xs = Some r"
  by (induction xs) (auto simp: image_iff)

lemma insertCompletion_exists:
  "list_ex (\<lambda>h. h_id h = i) (habits s) \<Longrightarrow>
   \<exists>s1. insertCompletionOrIgnore i ds s = Inr s1 \<and> habits s1 = habits s \<and> habit_days s1 = habit_days s
      \<and> interval_habit_state s1 = interval_habit_state s"
  by (simp add: insertCompletionOrIgnore_def)

lemma insertCompletion_again:
  "list_ex (\<lambda>c. c_habit_id c = i \<and> c_completed_date c = ds) (habit_completions s) \<Longrightarrow>
   insertCompletionOrIgnore i ds s = Inr s"
  by (simp add: insertCompletionOrIgnore_def)

lemma insertCompletion_frame:
  "insertCompletionOrIgnore i ds s = Inr s1 \<Longrightarrow>
   habits s1 = habits s \<and> habit_days s1 = habit_days s \<and> interval_habit_state s1 = interval_habit_state s"
  by (auto simp: insertCompletionOrIgnore_def split: if_splits)

lemma completeHabit_eq:
  assumes "insertCompletionOrIgnore habitId (formatDateString d) s = Inr s0"
  shows "completeHabit s habitId d =
     Inr (if updatesIntervalState s habitId
          then updateCompleted (formatDateString d)
                 (case find (\<lambda>r. ihs_habit_id r = habitId) (interval_habit_state s0) of
                    None \<Rightarrow> formatDateString d | Some r \<Rightarrow> ihs_next_due r)
                 (formatDateString (setDate d (js_add (getDate d)
                    (case find (\<lambda>h. h_id h = habitId) (habits s) of
                       None \<Rightarrow> None | Some h \<Rightarrow> h_interval_days h))))
                 habitId s0
          else s0)"
proof -
  have f: "habits s0 = habits s" using insertCompletion_frame[OF assms] by simp
  show ?thesis
    unfolding completeHabit_def Let_def assms updatesIntervalState_def
    by (simp add: f split: option.splits)
qed

lemma find_member: "find P xs = Some x \<Longrightarrow> x \<in> set xs \<and> P x"
  by (auto simp: find_Some_iff)

lemma find_exists: "x \<in> set xs \<Longrightarrow> P x \<Longrightarrow> \<exists>y. find P xs = Some y"
  by (cases "find P xs") (auto simp: find_None_iff)

section \<open>Rows written by createHabit\<close>

lemma insertHabitDays_result:
  "insertHabitDays i days s = (s', e) \<Longrightarrow>
   habits s' = habits s \<and> interval_habit_state s' = interval_habit_state s
   \<and> habit_completions s' = habit_completions s
   \<and> (\<exists>new. habit_days s' = habit_days s @ new \<and> (\<forall>hd \<in> set new. hd_habit_id hd = i))"
proof (induction days arbitrary: s)
  case Nil
  then show ?case by simp
next
  case (Cons day days)
  show ?case
  proof (cases "insertHabitDay i day s")
    case (Inl err)
    then show ?thesis using Cons.prems by simp
  next
    case (Inr s1)
    then have s1: "s1 = s\<lparr>habit_days := habit_days s @ [\<lparr>hd_habit_id = i, hd_day_of_week = day\<rparr>]\<rparr>"
      by (auto simp: insertHabitDay_def split: if_splits)
    from Inr Cons.prems have "insertHabitDays i days s1 = (s', e)" by simp
    from Cons.IH[OF this] obtain new where
      "habits s' = habits s1" "interval_habit_state s' = interval_habit_state s1"
      "habit_completions s' = habit_completions s1"
      "habit_days s' = habit_days s1 @ new" "\<forall>hd \<in> set new. hd_habit_id hd = i"
      by blast
    then show ?thesis
      by (intro conjI exI[of _ "\<lparr>hd_habit_id = i, hd_day_of_week = day\<rparr> # new"]) (simp_all add: s1)
  qed
qed

lemma createHabit_tables:
  "habits (fst (createHabit s i now today nh)) = habits s
     \<and> habit_days (fst (createHabit s i now today nh)) = habit_days s
   \<or> (\<not> list_ex (\<lambda>h. h_id h = i) (habits s)
       \<and> (\<exists>row. habits (fst (createHabit s i now today nh)) = habits s @ [row]
            \<and> h_id row = i \<and> h_schedule_type row = newScheduleType nh
            \<and> h_one_time_date row = (if newScheduleType nh = custom then newOneTimeDate nh else None))
       \<and> (\<exists>new. habit_days (fst (createHabit s i now today nh)) = habit_days s @ new
            \<and> (\<forall>hd \<in> set new. hd_habit_id hd = i)
            \<and> (new \<noteq> [] \<longrightarrow> newScheduleType nh = custom \<and> \<not> truthy_string (newOneTimeDate nh))))"
proof (cases "list_ex (\<lambda>h. h_id h = i) (habits s)")
  case True
  then show ?thesis by (simp add: createHabit_def Let_def insertHabit_def)
next
  case False
  define row where "row = \<lparr>h_id = i, h_name = newName nh, h_schedule_type = newScheduleType nh,
      h_interval_days = (case nh of NewIntervalHabit n otd iv sd r \<Rightarrow> Some iv | _ \<Rightarrow> None),
      h_one_time_date = (if newScheduleType nh = custom then newOneTimeDate nh else None),
      h_created_at = now, h_updated_at = now\<rparr>"
  define s1 where "s1 = s\<lparr>habits := habits s @ [row]\<rparr>"
  have ins: "insertHabit row s = Inr s1" using False by (simp add: insertHabit_def row_def s1_def)
  show ?thesis
  proof (cases nh)
    case (NewDailyHabit n otd)
    then have "fst (createHabit s i now today nh) = s1"
      using ins by (simp add: createHabit_def Let_def row_def)
    then show ?thesis using False NewDailyHabit by (simp add: s1_def row_def)
  next
    case (NewCustomHabit n otd days)
    show ?thesis
    proof (cases "\<not> truthy_string otd \<and> length days > 0")
      case True
      obtain s2 e where r: "insertHabitDays i days s1 = (s2, e)" by (cases "insertHabitDays i days s1") auto
      from insertHabitDays_result[OF r] obtain new where
        n: "habits s2 = habits s1" "habit_days s2 = habit_days s1 @ new" "\<forall>hd \<in> set new. hd_habit_id hd = i"
        by blast
      have "fst (createHabit s i now today nh) = s2"
        using ins r True NewCustomHabit by (cases e) (simp_all add: createHabit_def Let_def row_def)
      then show ?thesis using False NewCustomHabit n True by (simp add: s1_def row_def)
    next
      case F: False
      then have "fst (createHabit s i now today nh) = s1"
        using ins NewCustomHabit by (auto simp: createHabit_def Let_def row_def)
      then show ?thesis using False NewCustomHabit by (simp add: s1_def row_def)
    qed
  next
    case (NewIntervalHabit n otd iv sd r)
    have "habits (fst (createHabit s i now today nh)) = habits s1
        \<and> habit_days (fst (createHabit s i now today nh)) = habit_days s1"
      using ins NewIntervalHabit
      by (auto simp: createHabit_def Let_def row_def insertIntervalState_def split: option.splits)
    then show ?thesis using False NewIntervalHabit by (simp add: s1_def row_def)
  qed
qed

text \<open>
  \<open>createHabit\<close> with a custom habit and a non-empty \<open>oneTimeDate\<close> inserts no weekday
  rows, whatever days are supplied. A store in which every weekday row belongs to a
  habit and no custom habit with a \<open>one_time_date\<close> has weekday rows stays so under
  \<open>createHabit\<close>, also when it fails half way, when the new habit is not a custom habit
  with the empty string as \<open>oneTimeDate\<close>.
\<close>

lemma createHabit_keeps_one_time_without_days:
  "(newScheduleType nh = custom \<and> truthy_string (newOneTimeDate nh) \<longrightarrow>
      habit_days (fst (createHabit s i now today nh)) = habit_days s)
   \<and> (daysReferenceHabits s \<and> oneTimeHasNoDays s
        \<and> \<not> (newScheduleType nh = custom \<and> newOneTimeDate nh = Some []) \<longrightarrow>
      daysReferenceHabits (fst (createHabit s i now today nh))
        \<and> oneTimeHasNoDays (fst (createHabit s i now today nh)))"
proof (intro conjI impI)
  let ?s' = "fst (createHabit s i now today nh)"
  note t = createHabit_tables[of s i now today nh]
  {
    assume "newScheduleType nh = custom \<and> truthy_string (newOneTimeDate nh)"
    then show "habit_days ?s' = habit_days s" using t by auto
  }
  assume a: "daysReferenceHabits s \<and> oneTimeHasNoDays s
     \<and> \<not> (newScheduleType nh = custom \<and> newOneTimeDate nh = Some [])"
  then have fk: "\<forall>hd \<in> set (habit_days s). \<exists>h \<in> set (habits s). h_id h = hd_habit_id hd"
    and ex: "\<forall>h \<in> set (habits s). h_schedule_type h = custom \<and> h_one_time_date h \<noteq> None \<longrightarrow>
        (\<forall>hd \<in> set (habit_days s). hd_habit_id hd \<noteq> h_id h)"
    by (auto simp: daysReferenceHabits_def oneTimeHasNoDays_def list_all_iff list_ex_iff)
  have nb: "\<not> (newScheduleType nh = custom \<and> newOneTimeDate nh = Some [])" using a by simp
  from t show "daysReferenceHabits ?s'"
  proof
    assume "habits ?s' = habits s \<and> habit_days ?s' = habit_days s"
    then show ?thesis using a by (simp add: daysReferenceHabits_def)
  next
    assume "\<not> list_ex (\<lambda>h. h_id h = i) (habits s)
       \<and> (\<exists>row. habits ?s' = habits s @ [row]
            \<and> h_id row = i \<and> h_schedule_type row = newScheduleType nh
            \<and> h_one_time_date row = (if newScheduleType nh = custom then newOneTimeDate nh else None))
       \<and> (\<exists>new. habit_days ?s' = habit_days s @ new
            \<and> (\<forall>hd \<in> set new. hd_habit_id hd = i)
            \<and> (new \<noteq> [] \<longrightarrow> newScheduleType nh = custom \<and> \<not> truthy_string (newOneTimeDate nh)))"
    then obtain row new where "habits ?s' = habits s @ [row]" "h_id row = i"
      "habit_days ?s' = habit_days s @ new" "\<forall>hd \<in> set new. hd_habit_id hd = i"
      by blast
    then show ?thesis using fk
      by (auto simp: daysReferenceHabits_def list_all_iff list_ex_iff)
  qed
  from t show "oneTimeHasNoDays ?s'"
  proof
    assume "habits ?s' = habits s \<and> habit_days ?s' = habit_days s"
    then show ?thesis using a by (simp add: oneTimeHasNoDays_def)
  next
    assume "\<not> list_ex (\<lambda>h. h_id h = i) (habits s)
       \<and> (\<exists>row. habits ?s' = habits s @ [row]
            \<and> h_id row = i \<and> h_schedule_type row = newScheduleType nh
            \<and> h_one_time_date row = (if newScheduleType nh = custom then newOneTimeDate nh else None))
       \<and> (\<exists>new. habit_days ?s' = habit_days s @ new
            \<and> (\<forall>hd \<in> set new. hd_habit_id hd = i)
            \<and> (new \<noteq> [] \<longrightarrow> newScheduleType nh = custom \<and> \<not> truthy_string (newOneTimeDate nh)))"
    then obtain row new where fresh: "\<forall>h \<in> set (habits s). h_id h \<noteq> i"
      and row: "habits ?s' = habits s @ [row]" "h_id row = i" "h_schedule_type row = newScheduleType nh"
        "h_one_time_date row = (if newScheduleType nh = custom then newOneTimeDate nh else None)"
      and new: "habit_days ?s' = habit_days s @ new" "\<forall>hd \<in> set new. hd_habit_id hd = i"
        "new \<noteq> [] \<longrightarrow> newScheduleType nh = custom \<and> \<not> truthy_string (newOneTimeDate nh)"
      by (auto simp: list_ex_iff)
    have old_days: "\<forall>hd \<in> set (habit_days s). hd_habit_id hd \<noteq> i" using fk fresh by metis
    have new_row: "h_schedule_type row = custom \<and> h_one_time_date row \<noteq> None \<longrightarrow> new = []"
    proof (intro impI)
      assume c: "h_schedule_type row = custom \<and> h_one_time_date row \<noteq> None"
      then obtain x where x: "newOneTimeDate nh = Some x" "newScheduleType nh = custom"
        using row(3,4) by (auto split: if_splits)
      with nb have "x \<noteq> []" by simp
      then have "truthy_string (newOneTimeDate nh)" using x by simp
      with new(3) show "new = []" by blast
    qed
    show ?thesis
      unfolding oneTimeHasNoDays_def list_all_iff list_ex_iff row(1) new(1)
    proof (intro ballI impI)
      fix h assume h: "h \<in> set (habits s @ [row])"
        and c: "h_schedule_type h = custom \<and> h_one_time_date h \<noteq> None"
      show "\<not> (\<exists>hd \<in> set (habit_days s @ new). hd_habit_id hd = h_id h)"
      proof (cases "h = row")
        case True
        then show ?thesis using c new_row old_days row(2) by auto
      next
        case False
        then have hs: "h \<in> set (habits s)" using h by simp
        then have "h_id h \<noteq> i" using fresh by blast
        then show ?thesis using ex hs c new(2) by auto
      qed
    qed
  qed
qed

section \<open>The daily streak loop\<close>

lemma length_filter_all: "length (filter P xs) = length xs \<longleftrightarrow> list_all P xs"
proof (induction xs)
  case Nil
  show ?case by simp
next
  case (Cons x xs)
  have "length (filter P xs) \<noteq> Suc (length xs)"
    using length_filter_le[of P xs] by linarith
  then show ?case using Cons by auto
qed

lemma isCompleteDay_iff:
  "fst (isCompleteDay s d) = fst (getHabitsForDate s d)
   \<and> (snd (isCompleteDay s d) \<longleftrightarrow>
        snd (getHabitsForDate s d) \<noteq> [] \<and> list_all completed (snd (getHabitsForDate s d)))"
  by (cases "getHabitsForDate s d") (simp add: isCompleteDay_def Let_def length_filter_all)

text \<open>A row of the join that carries a completion carries one of the date asked for.\<close>

lemma joinCompletions_some:
  "(h, Some c) \<in> set (joinCompletions s ds) \<Longrightarrow> c \<in> set (habit_completions s) \<and> c_completed_date c = ds"
proof -
  assume a: "(h, Some c) \<in> set (joinCompletions s ds)"
  then obtain h' where m: "(h, Some c) \<in> set (case filter (\<lambda>c. h_id h' = c_habit_id c \<and> c_completed_date c = ds)
        (habit_completions s) of [] \<Rightarrow> [(h', None)] | cs \<Rightarrow> map (\<lambda>c. (h', Some c)) cs)"
    unfolding joinCompletions_def by auto
  show ?thesis
  proof (cases "filter (\<lambda>c. h_id h' = c_habit_id c \<and> c_completed_date c = ds) (habit_completions s)")
    case Nil
    then show ?thesis using m by simp
  next
    case (Cons x xs)
    then have "c \<in> set (filter (\<lambda>c. h_id h' = c_habit_id c \<and> c_completed_date c = ds) (habit_completions s))"
      using m by auto
    then show ?thesis by simp
  qed
qed

lemma isCompleteDay_frame:
  "habit_completions (fst (isCompleteDay s d)) = habit_completions s"
  using isCompleteDay_iff[of s d] by (simp add: getHabitsForDate_def Let_def)

text \<open>A complete day has a stored completion of its date string.\<close>

lemma complete_day_has_completion:
  assumes "snd (isCompleteDay s d)"
  shows "formatDateString d \<in> c_completed_date ` set (habit_completions s)"
proof -
  let ?s = "autoAdvanceOverdueIntervalHabits s d"
  let ?rows = "dueRows ?s (getDay d) (formatDateString d)"
  have hs: "snd (getHabitsForDate s d) =
      map (\<lambda>hc. withCompleted (mapRowToHabit (fst hc)) (snd hc \<noteq> None)) ?rows"
    by (simp add: getHabitsForDate_def Let_def)
  from assms have ne: "snd (getHabitsForDate s d) \<noteq> []"
    and al: "list_all completed (snd (getHabitsForDate s d))"
    using isCompleteDay_iff[of s d] by simp_all
  from ne obtain hc where hc: "hc \<in> set ?rows" unfolding hs by (cases ?rows) auto
  then have "completed (withCompleted (mapRowToHabit (fst hc)) (snd hc \<noteq> None))"
    using al unfolding hs by (simp add: list_all_iff)
  then obtain c where c: "snd hc = Some c" by auto
  from hc have "hc \<in> set (joinCompletions ?s (formatDateString d))" by (simp add: set_dueRows)
  moreover have "hc = (fst hc, Some c)" using c by (cases hc) simp
  ultimately have "(fst hc, Some c) \<in> set (joinCompletions ?s (formatDateString d))"
    by metis
  from joinCompletions_some[OF this]
  have "c \<in> set (habit_completions s)" "c_completed_date c = formatDateString d" by simp_all
  then show ?thesis by (metis imageI)
qed

lemma addDays_zero: "addDays 0 c = c"
  by (simp add: addDays_def)

text \<open>
  The loop returns: walking back from a valid day it stops at the latest when it meets
  a day for which no completion is stored, and it counts at least one day when it is
  entered with the flag set.
\<close>

lemma dailyStreakLoop_returns:
  assumes "validCivil c"
    and "formatDateString (LocalDay (addDays (- int n) c)) \<notin> c_completed_date ` set (habit_completions s)"
    and "complete \<Longrightarrow> formatDateString (LocalDay c) \<in> c_completed_date ` set (habit_completions s)"
  shows "\<exists>s' m. dailyStreakLoop s (LocalDay c) k complete = Some (s', m)
     \<and> m \<le> k + n \<and> (if complete then k < m else m = k)"
  using assms
proof (induction n arbitrary: s c k complete)
  case 0
  then have "\<not> complete" by (auto simp: addDays_zero)
  then show ?case by (simp add: dailyStreakLoop.simps)
next
  case (Suc n)
  show ?case
  proof (cases complete)
    case False
    then show ?thesis by (simp add: dailyStreakLoop.simps)
  next
    case True
    let ?y = "addDays (- 1) c"
    obtain s1 c1 where e: "isCompleteDay s (LocalDay ?y) = (s1, c1)"
      by (cases "isCompleteDay s (LocalDay ?y)") auto
    have fr: "habit_completions s1 = habit_completions s"
      using isCompleteDay_frame[of s "LocalDay ?y"] e by simp
    have vy: "validCivil ?y" by (rule addDays_valid[OF Suc.prems(1)])
    have sh: "addDays (- int n) ?y = addDays (- int (Suc n)) c"
    proof -
      have "- int n + - 1 = - int (Suc n)" by simp
      then show ?thesis using addDays_addDays[OF Suc.prems(1), of "- int n" "- 1"] by metis
    qed
    have free: "formatDateString (LocalDay (addDays (- int n) ?y))
        \<notin> c_completed_date ` set (habit_completions s1)"
      unfolding sh fr by (rule Suc.prems(2))
    have has: "formatDateString (LocalDay ?y) \<in> c_completed_date ` set (habit_completions s1)" if c1
      using complete_day_has_completion[of s "LocalDay ?y"] e that fr by simp
    from Suc.IH[OF vy free has, of c1 "k + 1"]
    obtain s' m where r: "dailyStreakLoop s1 (LocalDay ?y) (k + 1) c1 = Some (s', m)"
      "m \<le> k + 1 + n" "if c1 then k + 1 < m else m = k + 1"
      by blast
    have "dailyStreakLoop s (LocalDay c) k complete = Some (s', m)"
      using True e r(1) dailyStreakLoop.simps[of s "LocalDay c" k complete]
      by (simp add: dayBefore_addDays[OF Suc.prems(1)])
    moreover have "k < m" using r(3) by (cases c1) simp_all
    ultimately show ?thesis using r(2) True by auto
  qed
qed

text \<open>
  Such a day exists: the days walked have pairwise different date strings, so one more
  day than there are completions cannot all have one.
\<close>

lemma free_day_exists:
  assumes y: "inRange y" and b: "inRange (addDays (- int (length cs)) y)"
  shows "\<exists>j \<le> length cs. formatDateString (LocalDay (addDays (- int j) y)) \<notin> c_completed_date ` set cs"
proof (rule ccontr)
  let ?f = "\<lambda>j. formatDateString (LocalDay (addDays (- int j) y))"
  assume "\<not> ?thesis"
  then have sub: "?f ` {..length cs} \<subseteq> c_completed_date ` set cs" by auto
  have vy: "validCivil y" using y by (simp add: inRange_def)
  have r: "inRange (addDays (- int j) y)" if "j \<le> length cs" for j
    by (rule inRange_back[OF y b]) (use that in simp_all)
  have "inj_on ?f {..length cs}"
  proof (rule inj_onI)
    fix i j assume i: "i \<in> {..length cs}" and j: "j \<in> {..length cs}" and e: "?f i = ?f j"
    have "addDays (- int i) y = addDays (- int j) y"
      using format_eq_iff[OF r r, of i j] i j e by simp
    then have "dayNumber (addDays (- int i) y) = dayNumber (addDays (- int j) y)" by simp
    then show "i = j" by (simp add: addDays_dayNumber[OF vy])
  qed
  then have "card (?f ` {..length cs}) = Suc (length cs)" by (simp add: card_image)
  moreover have "card (?f ` {..length cs}) \<le> card (c_completed_date ` set cs)"
    by (rule card_mono[OF _ sub]) simp
  moreover have "card (c_completed_date ` set cs) \<le> length cs"
    using card_image_le[of "set cs" c_completed_date] card_length[of cs] by simp
  ultimately show False by simp
qed

section \<open>Further evaluations on the scenarios\<close>

lemma inRange_2024_01_10: "inRange (2024, 1, 10)"
  by (simp add: inRange_def validCivil_def daysInMonth_def)

lemma parsesToDate_2024_01_01: "parsesToDate ''2024-01-01''"
  by code_simp

lemma within_9999: "dayNumber (2024, 1, 10) + 3 \<le> dayNumber (9999, 12, 31)"
  by code_simp

lemma overdue_B: "overdueHabits scenarioB ''2024-01-10'' = [(''habit-b'', ''2024-01-01'', Some 3)]"
  by (simp add: overdueHabits_def scenarioB_def)

lemma overdue_B_advanced: "overdueHabits scenarioB_advanced ''2024-01-10'' = []"
  by (simp add: overdueHabits_def scenarioB_advanced_def scenarioB_def)

lemma inRange_2024_03_06: "inRange (2024, 3, 6)"
  by (simp add: inRange_def validCivil_def daysInMonth_def)

lemma canonical_03_04: "canonicalDate ''2024-03-04''"
  by code_simp

lemma canonical_03_05: "canonicalDate ''2024-03-05''"
  by code_simp

lemma back_2024_03_06:
  "addDays (- 1) (2024, 3, 6) = (2024, 3, 5)"
  "addDays (- 2) (2024, 3, 6) = (2024, 3, 4)"
  "addDays (- 3) (2024, 3, 6) = (2024, 3, 3)"
  by code_simp+

lemma format_march:
  "formatDateString (LocalDay (2024, 3, 6)) = ''2024-03-06''"
  "formatDateString (LocalDay (2024, 3, 4)) = ''2024-03-04''"
  "formatDateString (LocalDay (2024, 3, 3)) = ''2024-03-03''"
  by code_simp+

lemma addDays_3_2024_01_10: "addDays 3 (2024, 1, 10) = (2024, 1, 13)"
  by code_simp

lemma inRange_2024_01_13: "inRange (2024, 1, 13)"
  by (simp add: inRange_def validCivil_def daysInMonth_def)

lemma inRange_2024_01: "inRange (2024, 1, 1)" "inRange (2024, 1, 15)"
  by (simp_all add: inRange_def validCivil_def daysInMonth_def)

lemma format_2024_01_01: "formatDateString (LocalDay (2024, 1, 1)) = ''2024-01-01''"
  by code_simp

lemma dayNumber_2024_01: "dayNumber (2024, 1, 1) \<le> dayNumber (2024, 1, 15)"
  by (simp add: dayNumber_def daysBeforeMonth_def)

lemma no_due_2024_03_06: "getHabitsForDate oneTime_store (LocalDay (2024, 3, 6)) = (oneTime_store, [])"
  by code_simp

lemma daily_streak_oneTime:
  "getDailyCompletionStreak oneTime_store (LocalDay (2024, 3, 6)) = Some (oneTime_store, 1)"
  by code_simp

lemma complete_2024_03_05:
  "isCompleteDay oneTime_store (dayBefore (LocalDay (2024, 3, 6))) = (oneTime_store, True)"
  by code_simp

section \<open>The claims\<close>

text \<open>
  C1. Scenario B: an interval habit created with \<open>intervalDays = 3\<close>,
  \<open>rescheduleIfMissed = false\<close> and \<open>nextDue = "2024-01-01"\<close>. The query for 2024-01-10
  first advances it, with \<open>daysPassed = 9\<close> and \<open>intervalsToAdd = 3\<close>, storing
  \<open>nextDue = "2024-01-10"\<close> and \<open>lastDue = "2024-01-07"\<close>, and then returns the habit as
  due, not completed.
\<close>

theorem scenario_B_auto_advance:
  "fst (createHabit empty_store ''habit-b'' ''2024-01-01T08:00:00.000Z'' (LocalDay (2024, 1, 1))
      (NewIntervalHabit ''run'' None 3 (Some ''2024-01-01'') (Some False))) = scenarioB
   \<and> daysPassed ''2024-01-01'' (LocalDay (2024, 1, 10)) = Some 9
   \<and> intervalsToAdd (Some 9) (Some 3) = Some 3
   \<and> fst (getHabitsForDate scenarioB (LocalDay (2024, 1, 10))) =
       scenarioB\<lparr>interval_habit_state :=
         [\<lparr>ihs_habit_id = ''habit-b'', ihs_last_completed = None, ihs_last_due = Some ''2024-01-07'',
           ihs_next_due = ''2024-01-10'', ihs_reschedule_if_missed = 0\<rparr>]\<rparr>
   \<and> map (\<lambda>hw. (hId hw, completed hw)) (snd (getHabitsForDate scenarioB (LocalDay (2024, 1, 10))))
       = [(''habit-b'', False)]"
proof (intro conjI)
  show "fst (createHabit empty_store ''habit-b'' ''2024-01-01T08:00:00.000Z'' (LocalDay (2024, 1, 1))
      (NewIntervalHabit ''run'' None 3 (Some ''2024-01-01'') (Some False))) = scenarioB"
    by (simp add: createHabit_B)
  show "daysPassed ''2024-01-01'' (LocalDay (2024, 1, 10)) = Some 9"
    by (rule daysPassed_B)
  show "intervalsToAdd (Some 9) (Some 3) = Some 3"
    by (simp add: intervalsToAdd_def)
  show "fst (getHabitsForDate scenarioB (LocalDay (2024, 1, 10))) =
       scenarioB\<lparr>interval_habit_state :=
         [\<lparr>ihs_habit_id = ''habit-b'', ihs_last_completed = None, ihs_last_due = Some ''2024-01-07'',
           ihs_next_due = ''2024-01-10'', ihs_reschedule_if_missed = 0\<rparr>]\<rparr>"
    by (simp add: getHabitsForDate_def Let_def autoAdvance_B scenarioB_advanced_def)
  show "map (\<lambda>hw. (hId hw, completed hw)) (snd (getHabitsForDate scenarioB (LocalDay (2024, 1, 10))))
       = [(''habit-b'', False)]"
    unfolding getHabitsForDate_def Let_def autoAdvance_B format_2024_01_10 getDay_2024_01_10
    by (simp add: dueRows_def joinCompletions_def dueWhere_def intervalDue_def
        scenarioB_advanced_def scenarioB_def)
qed

text \<open>
  C2. Running the Interval Advancer twice for the same reference date gives the store
  of running it once: after the first run no row is selected any more, and every row of
  a habit the first run selected has a \<open>nextDue\<close> at or after the date string. The
  reference date has a year of four digits, and every row the first run selects is
  advanceable: its \<open>nextDue\<close> reads as a date of such a year, its interval is positive,
  and the advance stays within these years.
\<close>

theorem advance_twice_is_advance_once:
  assumes t: "inRange today"
    and g: "list_all (advanceableRow today) (overdueHabits s (formatDateString (LocalDay today)))"
  shows "autoAdvanceOverdueIntervalHabits (autoAdvanceOverdueIntervalHabits s (LocalDay today)) (LocalDay today)
       = autoAdvanceOverdueIntervalHabits s (LocalDay today)
     \<and> overdueHabits (autoAdvanceOverdueIntervalHabits s (LocalDay today)) (formatDateString (LocalDay today)) = []
     \<and> (\<forall>r \<in> set (interval_habit_state (autoAdvanceOverdueIntervalHabits s (LocalDay today))).
          ihs_habit_id r \<in> fst ` set (overdueHabits s (formatDateString (LocalDay today))) \<longrightarrow>
          formatDateString (LocalDay today) \<le> ihs_next_due r)"
proof -
  let ?ds = "formatDateString (LocalDay today)"
  let ?s' = "autoAdvanceOverdueIntervalHabits s (LocalDay today)"
  have g': "\<forall>x \<in> set (overdueHabits s ?ds). advanceableRow today x"
    using g by (simp add: list_all_iff)
  have rows: "(r' \<in> set (interval_habit_state s) \<and> ihs_habit_id r' \<notin> fst ` set (overdueHabits s ?ds))
     \<or> ?ds \<le> ihs_next_due r'" if "r' \<in> set (interval_habit_state ?s')" for r'
    using fold_advance_rows[OF g' t] that by (simp add: autoAdvanceOverdueIntervalHabits_def)
  have none: "overdueHabits ?s' ?ds = []"
  proof (rule overdueHabits_empty)
    fix r h
    assume r: "r \<in> set (interval_habit_state ?s')" and h: "h \<in> set (habits ?s')"
      and hr: "h_id h = ihs_habit_id r" and m: "ihs_reschedule_if_missed r = 0"
    show "\<not> ihs_next_due r < ?ds"
    proof
      assume lt: "ihs_next_due r < ?ds"
      with rows[OF r] have o: "r \<in> set (interval_habit_state s)"
        and n: "ihs_habit_id r \<notin> fst ` set (overdueHabits s ?ds)" by auto
      from h have "h \<in> set (habits s)" by simp
      then have "(ihs_habit_id r, ihs_next_due r, h_interval_days h) \<in> set (overdueHabits s ?ds)"
        using overdueHabits_selects[OF o _ hr m lt] by simp
      with n show False by force
    qed
  qed
  have idem: "autoAdvanceOverdueIntervalHabits ?s' (LocalDay today) = ?s'"
    by (subst autoAdvanceOverdueIntervalHabits_def) (simp add: none)
  have later: "\<forall>r \<in> set (interval_habit_state ?s').
      ihs_habit_id r \<in> fst ` set (overdueHabits s ?ds) \<longrightarrow> ?ds \<le> ihs_next_due r"
    using rows by blast
  show ?thesis using idem none later by simp
qed

theorem advance_twice_is_advance_once_witness:
  "autoAdvanceOverdueIntervalHabits scenarioB_advanced (LocalDay (2024, 1, 10)) = scenarioB_advanced
   \<and> overdueHabits scenarioB_advanced ''2024-01-10'' = []"
  using advance_twice_is_advance_once[of "(2024, 1, 10)" scenarioB]
  by (simp add: inRange_2024_01_10 format_2024_01_10 overdue_B advanceableRow_def
      parsesToDate_2024_01_01 within_9999 autoAdvance_B)

text \<open>
  C3, as amended. A second \<open>complete\<close> of the same habit and date, after a first one that
  succeeded, succeeds as well and leaves the habits, the weekday rows and the
  completions as they are. For a habit that is not an interval habit the store is the
  same. For an interval habit the update of the interval state runs again: the habit
  ids, \<open>lastCompleted\<close>, \<open>nextDue\<close> and \<open>rescheduleIfMissed\<close> of the rows stay, and
  \<open>lastDue\<close> of the habit's row becomes the \<open>nextDue\<close> that the first call set.
\<close>

theorem second_complete_rewrites_last_due_only:
  assumes first: "completeHabit s habitId d = Inr s1"
  shows "\<exists>s2. completeHabit s1 habitId d = Inr s2
     \<and> habits s2 = habits s1 \<and> habit_days s2 = habit_days s1
     \<and> habit_completions s2 = habit_completions s1
     \<and> map ihs_habit_id (interval_habit_state s2) = map ihs_habit_id (interval_habit_state s1)
     \<and> map ihs_last_completed (interval_habit_state s2) = map ihs_last_completed (interval_habit_state s1)
     \<and> map ihs_next_due (interval_habit_state s2) = map ihs_next_due (interval_habit_state s1)
     \<and> map ihs_reschedule_if_missed (interval_habit_state s2)
         = map ihs_reschedule_if_missed (interval_habit_state s1)
     \<and> (\<not> updatesIntervalState s habitId \<longrightarrow> s2 = s1)
     \<and> (updatesIntervalState s habitId \<longrightarrow>
          (\<forall>r \<in> set (interval_habit_state s2).
             ihs_habit_id r = habitId \<longrightarrow> ihs_last_due r = Some (ihs_next_due r)))"
proof -
  define ds where "ds = formatDateString d"
  define nd where "nd = formatDateString (setDate d (js_add (getDate d)
      (case find (\<lambda>h. h_id h = habitId) (habits s) of None \<Rightarrow> None | Some h \<Rightarrow> h_interval_days h)))"
  from first obtain s0 where s0: "insertCompletionOrIgnore habitId (formatDateString d) s = Inr s0"
    by (auto simp: completeHabit_def Let_def split: sum.splits)
  define ld1 where "ld1 = (case find (\<lambda>r. ihs_habit_id r = habitId) (interval_habit_state s0) of
      None \<Rightarrow> ds | Some r \<Rightarrow> ihs_next_due r)"
  have s1: "s1 = (if updatesIntervalState s habitId then updateCompleted ds ld1 nd habitId s0 else s0)"
    using first unfolding completeHabit_eq[OF s0] ds_def nd_def ld1_def by simp
  have has0: "list_ex (\<lambda>c. c_habit_id c = habitId \<and> c_completed_date c = formatDateString d)
      (habit_completions s0)"
    by (rule insertCompletion_has[OF s0])
  have hs: "habits s1 = habits s"
    using insertCompletion_frame[OF s0] by (simp add: s1)
  have has1: "list_ex (\<lambda>c. c_habit_id c = habitId \<and> c_completed_date c = formatDateString d)
      (habit_completions s1)"
    using has0 by (simp add: s1)
  have again: "insertCompletionOrIgnore habitId (formatDateString d) s1 = Inr s1"
    by (rule insertCompletion_again[OF has1])
  have u1: "updatesIntervalState s1 habitId = updatesIntervalState s habitId"
    by (simp add: updatesIntervalState_def hs)
  define ld2 where "ld2 = (case find (\<lambda>r. ihs_habit_id r = habitId) (interval_habit_state s1) of
      None \<Rightarrow> ds | Some r \<Rightarrow> ihs_next_due r)"
  define s2 where "s2 = (if updatesIntervalState s habitId then updateCompleted ds ld2 nd habitId s1 else s1)"
  have second: "completeHabit s1 habitId d = Inr s2"
    unfolding completeHabit_eq[OF again] u1 hs s2_def ds_def nd_def ld2_def by simp
  show ?thesis
  proof (cases "updatesIntervalState s habitId")
    case False
    then have "s2 = s1" by (simp add: s2_def)
    then show ?thesis
      by (intro exI[of _ s1]) (use second False in simp)
  next
    case True
    have r1: "interval_habit_state s1 =
        map (\<lambda>r. if ihs_habit_id r = habitId
                  then r\<lparr>ihs_last_completed := Some ds, ihs_last_due := Some ld1, ihs_next_due := nd\<rparr>
                  else r) (interval_habit_state s0)"
      using True by (simp add: s1 updateCompleted_def)
    have r2: "interval_habit_state s2 =
        map (\<lambda>r. if ihs_habit_id r = habitId
                  then r\<lparr>ihs_last_completed := Some ds, ihs_last_due := Some ld2, ihs_next_due := nd\<rparr>
                  else r) (interval_habit_state s1)"
      using True by (simp add: s2_def updateCompleted_def)
    have nd1: "ihs_next_due r = nd \<and> ihs_last_completed r = Some ds"
      if m: "r \<in> set (interval_habit_state s1)" and i: "ihs_habit_id r = habitId" for r
    proof -
      from m obtain r0 where r0: "r = (if ihs_habit_id r0 = habitId
            then r0\<lparr>ihs_last_completed := Some ds, ihs_last_due := Some ld1, ihs_next_due := nd\<rparr>
            else r0)"
        unfolding r1 set_map image_iff by blast
      show ?thesis
      proof (cases "ihs_habit_id r0 = habitId")
        case True
        then show ?thesis using r0 by simp
      next
        case False
        then show ?thesis using r0 i by simp
      qed
    qed
    have ld2: "ld2 = nd" if m: "r \<in> set (interval_habit_state s1)" and i: "ihs_habit_id r = habitId" for r
    proof -
      obtain r' where f: "find (\<lambda>r. ihs_habit_id r = habitId) (interval_habit_state s1) = Some r'"
        using find_exists[OF m, of "\<lambda>r. ihs_habit_id r = habitId"] i by blast
      then have "r' \<in> set (interval_habit_state s1)" "ihs_habit_id r' = habitId"
        using find_member by fastforce+
      then have "ihs_next_due r' = nd" using nd1 by blast
      then show ?thesis by (simp add: ld2_def f)
    qed
    have last: "\<forall>r \<in> set (interval_habit_state s2).
        ihs_habit_id r = habitId \<longrightarrow> ihs_last_due r = Some (ihs_next_due r)"
    proof (intro ballI impI)
      fix r assume r: "r \<in> set (interval_habit_state s2)" "ihs_habit_id r = habitId"
      then obtain r0 where r0: "r0 \<in> set (interval_habit_state s1)" "r = (if ihs_habit_id r0 = habitId
            then r0\<lparr>ihs_last_completed := Some ds, ihs_last_due := Some ld2, ihs_next_due := nd\<rparr>
            else r0)"
        unfolding r2 set_map image_iff by blast
      show "ihs_last_due r = Some (ihs_next_due r)"
      proof (cases "ihs_habit_id r0 = habitId")
        case True
        then show ?thesis using r0 ld2[OF r0(1) True] by simp
      next
        case False
        then show ?thesis using r0 r(2) by simp
      qed
    qed
    have same: "(if ihs_habit_id r = habitId
                  then r\<lparr>ihs_last_completed := Some ds, ihs_last_due := Some ld2, ihs_next_due := nd\<rparr>
                  else r) = r\<lparr>ihs_last_due := (if ihs_habit_id r = habitId then Some ld2 else ihs_last_due r)\<rparr>"
      if "r \<in> set (interval_habit_state s1)" for r
      using nd1[OF that] by simp
    have r2': "interval_habit_state s2 =
        map (\<lambda>r. r\<lparr>ihs_last_due := (if ihs_habit_id r = habitId then Some ld2 else ihs_last_due r)\<rparr>)
          (interval_habit_state s1)"
      unfolding r2 using same by (simp cong: map_cong)
    have cols:
      "map ihs_habit_id (interval_habit_state s2) = map ihs_habit_id (interval_habit_state s1)"
      "map ihs_last_completed (interval_habit_state s2) = map ihs_last_completed (interval_habit_state s1)"
      "map ihs_next_due (interval_habit_state s2) = map ihs_next_due (interval_habit_state s1)"
      "map ihs_reschedule_if_missed (interval_habit_state s2)
         = map ihs_reschedule_if_missed (interval_habit_state s1)"
      unfolding r2' by (simp_all add: comp_def)
    have frame: "habits s2 = habits s1" "habit_days s2 = habit_days s1"
        "habit_completions s2 = habit_completions s1"
      by (simp_all add: s2_def)
    show ?thesis
      by (rule exI[of _ s2]) (use second frame cols last True in simp)
  qed
qed

theorem second_complete_rewrites_last_due_only_witness:
  "\<exists>s2. completeHabit scenarioC ''habit-b'' (LocalDay (2024, 1, 10)) = Inr s2
     \<and> habit_completions s2 = [\<lparr>c_habit_id = ''habit-b'', c_completed_date = ''2024-01-10''\<rparr>]
     \<and> map ihs_next_due (interval_habit_state s2) = [''2024-01-13'']
     \<and> map ihs_last_completed (interval_habit_state s2) = [Some ''2024-01-10'']"
proof -
  from second_complete_rewrites_last_due_only[OF completeHabit_C]
  obtain s2 where a: "completeHabit scenarioC ''habit-b'' (LocalDay (2024, 1, 10)) = Inr s2"
    and b: "habit_completions s2 = habit_completions scenarioC"
    and c: "map ihs_last_completed (interval_habit_state s2)
        = map ihs_last_completed (interval_habit_state scenarioC)"
    and d: "map ihs_next_due (interval_habit_state s2) = map ihs_next_due (interval_habit_state scenarioC)"
    by blast
  have e: "habit_completions scenarioC = [\<lparr>c_habit_id = ''habit-b'', c_completed_date = ''2024-01-10''\<rparr>]"
    "map ihs_next_due (interval_habit_state scenarioC) = [''2024-01-13'']"
    "map ihs_last_completed (interval_habit_state scenarioC) = [Some ''2024-01-10'']"
    by (simp_all add: scenarioC_def)
  show ?thesis
    by (rule exI[of _ s2]) (simp add: a b c d e)
qed

text \<open>
  The claim as stated fails on Scenario C: the first completion on 2024-01-10 leaves
  \<open>lastDue = "2024-01-10"\<close>, the second one \<open>lastDue = "2024-01-13"\<close>.
\<close>

theorem second_complete_rewrites_last_due_only_counterexample:
  "completeHabit scenarioB_advanced ''habit-b'' (LocalDay (2024, 1, 10)) = Inr scenarioC
   \<and> completeHabit scenarioC ''habit-b'' (LocalDay (2024, 1, 10)) = Inr scenarioC_twice
   \<and> interval_habit_state scenarioC_twice \<noteq> interval_habit_state scenarioC"
proof (intro conjI)
  show "completeHabit scenarioB_advanced ''habit-b'' (LocalDay (2024, 1, 10)) = Inr scenarioC"
    by (rule completeHabit_C)
  show "completeHabit scenarioC ''habit-b'' (LocalDay (2024, 1, 10)) = Inr scenarioC_twice"
    unfolding completeHabit_def Let_def format_2024_01_10
    by (simp add: insertCompletionOrIgnore_def scenarioC_twice_def scenarioC_def scenarioB_def
        updateCompleted_def makeCivil_2024_0_13 format_2024_01_13)
  show "interval_habit_state scenarioC_twice \<noteq> interval_habit_state scenarioC"
    by (simp add: scenarioC_twice_def scenarioC_def)
qed

text \<open>
  C4, as amended. A day counts as complete exactly when it has at least one due habit
  and every due habit is completed. When the start date has no due habit, the streak
  is counted from the day before: it is 0 when that day is not complete. For a start
  date with a year of four digits, and not within as many days of the year 1000 as
  there are stored completions plus one, the streak is returned, it is at most the
  number of stored completions, and it is at least 1 exactly when the day before the
  start date is complete.
\<close>

theorem daily_streak_skips_start_without_due_habits:
  "(snd (isCompleteDay s d) \<longleftrightarrow>
      snd (getHabitsForDate s d) \<noteq> [] \<and> list_all completed (snd (getHabitsForDate s d)))
   \<and> (snd (getHabitsForDate s startDate) = [] \<longrightarrow>
        getDailyCompletionStreak s startDate =
          (case isCompleteDay (fst (getHabitsForDate s startDate)) (dayBefore startDate) of
             (s2, complete) \<Rightarrow> dailyStreakLoop s2 (dayBefore startDate) 0 complete))
   \<and> (snd (getHabitsForDate s startDate) = []
        \<and> \<not> snd (isCompleteDay (fst (getHabitsForDate s startDate)) (dayBefore startDate)) \<longrightarrow>
        getDailyCompletionStreak s startDate =
          Some (fst (isCompleteDay (fst (getHabitsForDate s startDate)) (dayBefore startDate)), 0))
   \<and> (snd (getHabitsForDate s (LocalDay day)) = [] \<and> inRange day
        \<and> inRange (addDays (- int (Suc (length (habit_completions s)))) day) \<longrightarrow>
        (\<exists>s' n. getDailyCompletionStreak s (LocalDay day) = Some (s', n)
           \<and> n \<le> length (habit_completions s)
           \<and> (0 < n \<longleftrightarrow>
                snd (isCompleteDay (fst (getHabitsForDate s (LocalDay day))) (dayBefore (LocalDay day))))))"
proof -
  have skip: "getDailyCompletionStreak s startDate =
      (case isCompleteDay (fst (getHabitsForDate s startDate)) (dayBefore startDate) of
         (s2, complete) \<Rightarrow> dailyStreakLoop s2 (dayBefore startDate) 0 complete)"
    if "snd (getHabitsForDate s startDate) = []" for startDate
  proof -
    have "isCompleteDay s startDate = (fst (getHabitsForDate s startDate), False)"
      using that isCompleteDay_iff[of s startDate] by (cases "isCompleteDay s startDate") simp
    then show ?thesis by (simp add: getDailyCompletionStreak_def Let_def)
  qed
  have zero: "getDailyCompletionStreak s startDate =
      Some (fst (isCompleteDay (fst (getHabitsForDate s startDate)) (dayBefore startDate)), 0)"
    if "snd (getHabitsForDate s startDate) = []"
      "\<not> snd (isCompleteDay (fst (getHabitsForDate s startDate)) (dayBefore startDate))"
    using that(2) unfolding skip[OF that(1)]
    by (cases "isCompleteDay (fst (getHabitsForDate s startDate)) (dayBefore startDate)")
       (simp add: dailyStreakLoop.simps)
  have returns: "\<exists>s' n. getDailyCompletionStreak s (LocalDay day) = Some (s', n)
           \<and> n \<le> length (habit_completions s)
           \<and> (0 < n \<longleftrightarrow>
                snd (isCompleteDay (fst (getHabitsForDate s (LocalDay day))) (dayBefore (LocalDay day))))"
    if a: "snd (getHabitsForDate s (LocalDay day)) = []" and d: "inRange day"
      and b: "inRange (addDays (- int (Suc (length (habit_completions s)))) day)"
  proof -
    let ?L = "length (habit_completions s)"
    let ?s1 = "fst (getHabitsForDate s (LocalDay day))"
    let ?y = "addDays (- 1) day"
    have vd: "validCivil day" using d by (simp add: inRange_def)
    have vy: "validCivil ?y" by (rule addDays_valid[OF vd])
    have db: "dayBefore (LocalDay day) = LocalDay ?y" by (rule dayBefore_addDays[OF vd])
    obtain s2 c where e: "isCompleteDay ?s1 (LocalDay ?y) = (s2, c)"
      by (cases "isCompleteDay ?s1 (LocalDay ?y)") auto
    have f1: "habit_completions ?s1 = habit_completions s"
      by (simp add: getHabitsForDate_def Let_def)
    have f2: "habit_completions s2 = habit_completions s"
      using isCompleteDay_frame[of ?s1 "LocalDay ?y"] e f1 by simp
    have ry: "inRange ?y"
      using inRange_back[OF d b, of 1] by simp
    have sh: "addDays (- int ?L) ?y = addDays (- int (Suc ?L)) day"
    proof -
      have "- int ?L + - 1 = - int (Suc ?L)" by simp
      then show ?thesis using addDays_addDays[OF vd, of "- int ?L" "- 1"] by metis
    qed
    have "inRange (addDays (- int (length (habit_completions s2))) ?y)"
      unfolding f2 sh by (rule b)
    from free_day_exists[OF ry this] obtain j where j: "j \<le> ?L"
      "formatDateString (LocalDay (addDays (- int j) ?y)) \<notin> c_completed_date ` set (habit_completions s2)"
      unfolding f2 by blast
    have has: "formatDateString (LocalDay ?y) \<in> c_completed_date ` set (habit_completions s2)" if c
      using complete_day_has_completion[of ?s1 "LocalDay ?y"] e that f1 f2 by simp
    from dailyStreakLoop_returns[OF vy j(2) has, of c 0]
    obtain s' m where r: "dailyStreakLoop s2 (LocalDay ?y) 0 c = Some (s', m)"
      "m \<le> 0 + j" "if c then 0 < m else m = 0"
      by blast
    have "getDailyCompletionStreak s (LocalDay day) = Some (s', m)"
      unfolding skip[OF a] db e using r(1) by simp
    moreover have "m \<le> ?L" using r(2) j(1) by simp
    moreover have "0 < m \<longleftrightarrow> snd (isCompleteDay ?s1 (dayBefore (LocalDay day)))"
      unfolding db e using r(3) by (cases c) simp_all
    ultimately show ?thesis by blast
  qed
  show ?thesis
  proof (intro conjI impI)
    show "snd (isCompleteDay s d)
        = (snd (getHabitsForDate s d) \<noteq> [] \<and> list_all completed (snd (getHabitsForDate s d)))"
      using isCompleteDay_iff[of s d] by simp
  qed (use skip zero returns in blast)+
qed

theorem daily_streak_skips_start_without_due_habits_witness:
  "\<exists>s'. getDailyCompletionStreak oneTime_store (LocalDay (2024, 3, 6)) = Some (s', 1)"
proof -
  have l: "length (habit_completions oneTime_store) = 1" by (simp add: oneTime_store_def)
  have b: "inRange (addDays (- int (Suc (length (habit_completions oneTime_store)))) (2024, 3, 6))"
    unfolding l by (simp add: back_2024_03_06 inRange_def validCivil_def daysInMonth_def)
  have n: "snd (getHabitsForDate oneTime_store (LocalDay (2024, 3, 6))) = []"
    by (simp add: no_due_2024_03_06)
  have c: "snd (isCompleteDay (fst (getHabitsForDate oneTime_store (LocalDay (2024, 3, 6))))
      (dayBefore (LocalDay (2024, 3, 6))))"
    by (simp add: no_due_2024_03_06 complete_2024_03_05)
  from daily_streak_skips_start_without_due_habits[where s = oneTime_store
      and day = "(2024, 3, 6)" and d = "LocalDay (2024, 3, 6)" and startDate = "LocalDay (2024, 3, 6)"]
    n inRange_2024_03_06 b c
  obtain s' k where r: "getDailyCompletionStreak oneTime_store (LocalDay (2024, 3, 6)) = Some (s', k)"
    "k \<le> length (habit_completions oneTime_store)" "0 < k"
    by blast
  then have "k = 1" unfolding l by simp
  with r(1) show ?thesis by blast
qed

text \<open>
  The claim as stated fails for a one-time habit of 2024-03-05 completed on that day:
  2024-03-06 has no due habit, and the streak from 2024-03-06 is 1.
\<close>

theorem daily_streak_skips_start_without_due_habits_counterexample:
  "snd (getHabitsForDate oneTime_store (LocalDay (2024, 3, 6))) = []
   \<and> getDailyCompletionStreak oneTime_store (LocalDay (2024, 3, 6)) = Some (oneTime_store, 1)"
  by (simp add: no_due_2024_03_06 daily_streak_oneTime)

text \<open>
  C5. For every habit and date, after \<open>complete\<close> the completion of that habit and
  date exists, and \<open>uncomplete\<close> then removes it, keeps every other completion, and
  leaves the interval state as \<open>complete\<close> set it, together with the habits and the
  weekday rows: it changes no table but \<open>habit_completions\<close>.
\<close>

theorem uncomplete_keeps_interval_state:
  assumes "completeHabit s habitId d = Inr s1"
  shows "list_ex (\<lambda>c. c_habit_id c = habitId \<and> c_completed_date c = formatDateString d)
           (habit_completions s1)
    \<and> \<not> list_ex (\<lambda>c. c_habit_id c = habitId \<and> c_completed_date c = formatDateString d)
          (habit_completions (uncompleteHabit s1 habitId d))
    \<and> habit_completions (uncompleteHabit s1 habitId d) =
        filter (\<lambda>c. (c_habit_id c, c_completed_date c) \<noteq> (habitId, formatDateString d))
          (habit_completions s1)
    \<and> interval_habit_state (uncompleteHabit s1 habitId d) = interval_habit_state s1
    \<and> habits (uncompleteHabit s1 habitId d) = habits s1
    \<and> habit_days (uncompleteHabit s1 habitId d) = habit_days s1"
  using completeHabit_has[OF assms] by (simp add: uncompleteHabit_def list_ex_iff)

theorem uncomplete_keeps_interval_state_witness:
  "completeHabit scenarioB_advanced ''habit-b'' (LocalDay (2024, 1, 10)) = Inr scenarioC
   \<and> habit_completions (uncompleteHabit scenarioC ''habit-b'' (LocalDay (2024, 1, 10))) = []
   \<and> interval_habit_state (uncompleteHabit scenarioC ''habit-b'' (LocalDay (2024, 1, 10))) =
       [\<lparr>ihs_habit_id = ''habit-b'', ihs_last_completed = Some ''2024-01-10'',
         ihs_last_due = Some ''2024-01-10'', ihs_next_due = ''2024-01-13'',
         ihs_reschedule_if_missed = 0\<rparr>]"
  using uncomplete_keeps_interval_state[OF completeHabit_C] completeHabit_C
  by (simp add: scenarioC_def format_2024_01_10)

text \<open>
  C6, as amended. Completing an interval habit with a non-zero interval succeeds and
  rewrites every state row of the habit: \<open>lastDue\<close> becomes the row's \<open>nextDue\<close>,
  \<open>lastCompleted\<close> the date string, \<open>nextDue\<close> the string of the date plus
  \<open>intervalDays\<close>; the rows of other habits stay. When the habit has no state row, the
  interval state stays as it is: the fallback is computed and nothing is stored. The
  date and the date plus \<open>intervalDays\<close> are days with years of four digits, and the ids
  of the habits and of the state rows are distinct, as their primary keys make them.
\<close>

theorem complete_sets_interval_state:
  assumes pk: "distinct (map h_id (habits s))" "distinct (map ihs_habit_id (interval_habit_state s))"
    and h: "h \<in> set (habits s)" "h_id h = habitId" "h_schedule_type h = interval"
      "h_interval_days h = Some iv" "iv \<noteq> 0"
    and r: "inRange c" "inRange (addDays iv c)"
  shows "\<exists>s1. completeHabit s habitId (LocalDay c) = Inr s1
     \<and> interval_habit_state s1 =
         map (\<lambda>r. if ihs_habit_id r = habitId
                   then r\<lparr>ihs_last_completed := Some (formatDateString (LocalDay c)),
                          ihs_last_due := Some (ihs_next_due r),
                          ihs_next_due := formatDateString (LocalDay (addDays iv c))\<rparr>
                   else r) (interval_habit_state s)
     \<and> (\<not> list_ex (\<lambda>r. ihs_habit_id r = habitId) (interval_habit_state s) \<longrightarrow>
          interval_habit_state s1 = interval_habit_state s)"
proof -
  let ?ds = "formatDateString (LocalDay c)"
  have c: "validCivil c" using r(1) by (simp add: inRange_def)
  have ex: "list_ex (\<lambda>h. h_id h = habitId) (habits s)" using h(1,2) by (auto simp: list_ex_iff)
  then obtain s0 where s0: "insertCompletionOrIgnore habitId ?ds s = Inr s0"
    and f0: "habits s0 = habits s" "interval_habit_state s0 = interval_habit_state s"
    using insertCompletion_exists[of habitId s ?ds] by auto
  have fh: "find (\<lambda>h. h_id h = habitId) (habits s) = Some h"
    by (rule find_distinct_key[OF pk(1) h(1,2)])
  let ?ld = "case find (\<lambda>r. ihs_habit_id r = habitId) (interval_habit_state s) of
      None \<Rightarrow> ?ds | Some r \<Rightarrow> ihs_next_due r"
  let ?s1 = "updateCompleted ?ds ?ld (formatDateString (LocalDay (addDays iv c))) habitId s0"
  have r: "completeHabit s habitId (LocalDay c) = Inr ?s1"
    unfolding completeHabit_def Let_def s0
    using h(3,4,5) by (simp add: fh f0 setDate_plus[OF c])
  have own: "?ld = ihs_next_due r" if "r \<in> set (interval_habit_state s)" "ihs_habit_id r = habitId" for r
    using find_distinct_key[OF pk(2) that] by simp
  have rows: "interval_habit_state ?s1 =
         map (\<lambda>r. if ihs_habit_id r = habitId
                   then r\<lparr>ihs_last_completed := Some ?ds, ihs_last_due := Some (ihs_next_due r),
                          ihs_next_due := formatDateString (LocalDay (addDays iv c))\<rparr>
                   else r) (interval_habit_state s)"
    unfolding updateCompleted_def using own by (simp add: f0 cong: map_cong)
  have none: "interval_habit_state ?s1 = interval_habit_state s"
    if "\<not> list_ex (\<lambda>r. ihs_habit_id r = habitId) (interval_habit_state s)"
    unfolding rows using that by (simp add: list_ex_iff map_idI)
  show ?thesis using r rows none by blast
qed

theorem complete_sets_interval_state_witness:
  "\<exists>s1. completeHabit scenarioB_advanced ''habit-b'' (LocalDay (2024, 1, 10)) = Inr s1
     \<and> interval_habit_state s1 =
        [\<lparr>ihs_habit_id = ''habit-b'', ihs_last_completed = Some ''2024-01-10'',
          ihs_last_due = Some ''2024-01-10'', ihs_next_due = ''2024-01-13'',
          ihs_reschedule_if_missed = 0\<rparr>]"
  using complete_sets_interval_state[of scenarioB_advanced "hd (habits scenarioB_advanced)" "''habit-b''" 3 "(2024, 1, 10)"]
  by (simp add: scenarioB_advanced_def scenarioB_def inRange_2024_01_10 inRange_2024_01_13
      format_2024_01_10 addDays_3_2024_01_10 format_2024_01_13)

text \<open>
  The claim as stated fails where the habit has no state row: the completion is
  stored and no \<open>lastDue\<close> is set.
\<close>

theorem complete_sets_interval_state_counterexample:
  "completeHabit noStateRow_store ''habit-b'' (LocalDay (2024, 1, 10)) =
     Inr (noStateRow_store\<lparr>habit_completions :=
            [\<lparr>c_habit_id = ''habit-b'', c_completed_date = ''2024-01-10''\<rparr>]\<rparr>)
   \<and> interval_habit_state noStateRow_store = []"
  unfolding completeHabit_def Let_def format_2024_01_10
  by (simp add: insertCompletionOrIgnore_def noStateRow_store_def scenarioB_def updateCompleted_def)

text \<open>
  C7. An interval habit with \<open>rescheduleIfMissed = true\<close>: the Interval Advancer, run
  for any reference date, leaves its state row as it is, and the query for a date
  whose string is at or after its \<open>nextDue\<close> returns the habit; for days with years of
  four digits that is every day at or after the day of \<open>nextDue\<close>. The habit ids of
  the state rows are distinct, as the primary key of the table makes them.
\<close>

theorem reschedule_if_missed_stays_due:
  assumes "distinct (map ihs_habit_id (interval_habit_state s))"
    and "r \<in> set (interval_habit_state s)" and "ihs_reschedule_if_missed r = 1"
    and "h \<in> set (habits s)" and "h_id h = ihs_habit_id r" and "h_schedule_type h = interval"
  shows "r \<in> set (interval_habit_state (autoAdvanceOverdueIntervalHabits s d'))
     \<and> (ihs_next_due r \<le> formatDateString d \<longrightarrow>
          (\<exists>hw \<in> set (snd (getHabitsForDate s d)). hId hw = h_id h))
     \<and> (\<forall>due day. inRange due \<and> inRange day \<and> ihs_next_due r = formatDateString (LocalDay due)
            \<and> dayNumber due \<le> dayNumber day \<longrightarrow>
          (\<exists>hw \<in> set (snd (getHabitsForDate s (LocalDay day))). hId hw = h_id h))"
proof -
  have keep: "r \<in> set (interval_habit_state (autoAdvanceOverdueIntervalHabits s d'))" for d'
    using advance_keeps_reschedule_rows[OF assms(1,2)] assms(3) by simp
  have due: "\<exists>hw \<in> set (snd (getHabitsForDate s d)). hId hw = h_id h"
    if le: "ihs_next_due r \<le> formatDateString d" for d
  proof -
    have "intervalDue (formatDateString d) r"
      using assms(3) le by (auto simp: intervalDue_def)
    then have "list_ex (\<lambda>ihs. ihs_habit_id ihs = h_id h \<and> intervalDue (formatDateString d) ihs)
       (interval_habit_state (autoAdvanceOverdueIntervalHabits s d))"
      using keep[of d] assms(5) by (auto simp: list_ex_iff)
    then have "dueWhere (autoAdvanceOverdueIntervalHabits s d) (getDay d) (formatDateString d) (h, c)" for c
      using assms(6) by (simp add: dueWhere_def)
    then show ?thesis using due_row_returned[OF assms(4)] by blast
  qed
  have later: "\<exists>hw \<in> set (snd (getHabitsForDate s (LocalDay day))). hId hw = h_id h"
    if "inRange due \<and> inRange day \<and> ihs_next_due r = formatDateString (LocalDay due)
        \<and> dayNumber due \<le> dayNumber day" for due day
  proof (rule due)
    show "ihs_next_due r \<le> formatDateString (LocalDay day)"
      using that format_le_iff[of due day] by simp
  qed
  show ?thesis using keep due later by blast
qed

theorem reschedule_if_missed_stays_due_witness:
  "scenarioD_state \<in> set (interval_habit_state
       (autoAdvanceOverdueIntervalHabits scenarioD (LocalDay (2024, 1, 15))))
   \<and> (\<exists>hw \<in> set (snd (getHabitsForDate scenarioD (LocalDay (2024, 1, 15)))). hId hw = ''habit-d'')"
proof -
  note t = reschedule_if_missed_stays_due[of scenarioD scenarioD_state scenarioD_habit
      "LocalDay (2024, 1, 15)" "LocalDay (2024, 1, 15)"]
  have p: "distinct (map ihs_habit_id (interval_habit_state scenarioD))"
    "scenarioD_state \<in> set (interval_habit_state scenarioD)"
    "ihs_reschedule_if_missed scenarioD_state = 1"
    "scenarioD_habit \<in> set (habits scenarioD)"
    "h_id scenarioD_habit = ihs_habit_id scenarioD_state"
    "h_schedule_type scenarioD_habit = interval"
    by (simp_all add: scenarioD_def scenarioD_state_def scenarioD_habit_def)
  have q: "inRange (2024, 1, 1) \<and> inRange (2024, 1, 15)
      \<and> ihs_next_due scenarioD_state = formatDateString (LocalDay (2024, 1, 1))
      \<and> dayNumber (2024, 1, 1) \<le> dayNumber (2024, 1, 15)"
    by (simp add: inRange_2024_01 format_2024_01_01 dayNumber_2024_01 scenarioD_state_def)
  have i: "h_id scenarioD_habit = ''habit-d''" by (simp add: scenarioD_habit_def)
  from t[OF p] q i show ?thesis by metis
qed

text \<open>
  C8. For every store and date, a custom habit with a \<open>oneTimeDate\<close> is among the due
  habits of the date only if its \<open>oneTimeDate\<close> is the date string itself, and it is
  among them whenever it is: the weekday of the date and the \<open>habit_days\<close> rows play
  no part.
\<close>

theorem one_time_habit_due_exactly_on_its_date:
  "(\<forall>hw \<in> set (snd (getHabitsForDate s d)). \<forall>x.
       scheduleType hw = custom \<longrightarrow> oneTimeDate hw = Some x \<longrightarrow> x = formatDateString d)
   \<and> (\<forall>h \<in> set (habits s).
       h_schedule_type h = custom \<longrightarrow> h_one_time_date h = Some (formatDateString d) \<longrightarrow>
         (\<exists>hw \<in> set (snd (getHabitsForDate s d)). hId hw = h_id h \<and> oneTimeDate hw = h_one_time_date h))"
proof (intro conjI ballI allI impI)
  fix hw x
  assume hw: "hw \<in> set (snd (getHabitsForDate s d))"
    and c: "scheduleType hw = custom" and o: "oneTimeDate hw = Some x"
  from hw obtain hc
    where hc: "hc \<in> set (dueRows (autoAdvanceOverdueIntervalHabits s d) (getDay d) (formatDateString d))"
      and eq: "hw = withCompleted (mapRowToHabit (fst hc)) (snd hc \<noteq> None)"
    by (auto simp: getHabitsForDate_def Let_def)
  from hc have "dueWhere (autoAdvanceOverdueIntervalHabits s d) (getDay d) (formatDateString d) hc"
    by (simp add: set_dueRows)
  with c o eq show "x = formatDateString d"
    by (auto simp: dueWhere_def split: prod.splits)
next
  fix h
  assume h: "h \<in> set (habits s)" and c: "h_schedule_type h = custom"
    and o: "h_one_time_date h = Some (formatDateString d)"
  have "dueWhere (autoAdvanceOverdueIntervalHabits s d) (getDay d) (formatDateString d) (h, cr)" for cr
    using c o by (simp add: dueWhere_def)
  then show "\<exists>hw \<in> set (snd (getHabitsForDate s d)). hId hw = h_id h \<and> oneTimeDate hw = h_one_time_date h"
    using due_row_returned[OF h] by blast
qed

theorem one_time_habit_due_exactly_on_its_date_witness:
  "\<exists>hw \<in> set (snd (getHabitsForDate oneTime_store (LocalDay (2024, 3, 5)))).
      hId hw = ''habit-f'' \<and> oneTimeDate hw = Some ''2024-03-05''"
  using one_time_habit_due_exactly_on_its_date[of oneTime_store "LocalDay (2024, 3, 5)"]
  by (simp add: oneTime_store_def oneTime_habit_def format_2024_03_05)

text \<open>
  C9. \<open>habitStreak\<close> counts the consecutive completed days backward from today, and from
  yesterday when today has no completion: with completions on the \<open>k\<close> days up to today
  and none on the day before them it is \<open>k\<close>; with no completion today, completions
  on the \<open>k\<close> days up to yesterday and none on the day before them it is \<open>k\<close>, which is
  0 when yesterday was missed. The completion dates of the habit are date strings of
  years of four digits, one per day. Scenario E, with 2024-03-05 and 2024-03-04
  completed and today 2024-03-06, gives 2.
\<close>

theorem habit_streak_counts_back_from_today:
  assumes t: "inRange today"
    and canon: "\<forall>c \<in> set (habit_completions s). c_habit_id c = habitId \<longrightarrow> canonicalDate (c_completed_date c)"
    and uniq: "distinct (map c_completed_date (filter (\<lambda>c. c_habit_id c = habitId) (habit_completions s)))"
    and rk: "inRange (addDays (- int (Suc k)) today)"
  shows "(0 < k \<longrightarrow>
          (\<forall>i < k. hasCompletion s habitId (formatDateString (LocalDay (addDays (- int i) today)))) \<longrightarrow>
          \<not> hasCompletion s habitId (formatDateString (LocalDay (addDays (- int k) today))) \<longrightarrow>
          getStreak s habitId (LocalDay today) = k)
      \<and> (\<not> hasCompletion s habitId (formatDateString (LocalDay today)) \<longrightarrow>
          (\<forall>i < k. hasCompletion s habitId (formatDateString (LocalDay (addDays (- int (Suc i)) today)))) \<longrightarrow>
          \<not> hasCompletion s habitId (formatDateString (LocalDay (addDays (- int (Suc k)) today))) \<longrightarrow>
          getStreak s habitId (LocalDay today) = k)"
proof (intro conjI impI)
  let ?ds = "formatDateString (LocalDay today)"
  let ?L = "streakCompletions s habitId ?ds"
  have vt: "validCivil today" using t by (simp add: inRange_def)
  have t0: "addDays 0 today = today" by (simp add: addDays_def)
  have sorted: "sorted_wrt (>) ?L" by (rule sorted_streakCompletions[OF uniq])
  have canonL: "\<forall>x \<in> set (?L). canonicalDate x"
    using canon by (auto simp: set_streakCompletions hasCompletion_def list_ex_iff)
  have boundL: "\<forall>x \<in> set (?L). x \<le> ?ds" by (simp add: set_streakCompletions)
  have earlier: "inRange (addDays (- int i) today)" if "i \<le> Suc k" for i
    by (rule inRange_back[OF t rk]) (use that in simp_all)
  have early: "formatDateString (LocalDay (addDays (- int i) today)) \<le> ?ds" if "i \<le> Suc k" for i
    using format_le_iff[OF earlier[OF that] t] addDays_dayNumber[OF vt, of "- int i"] by simp
  have getStreak: "getStreak s habitId (LocalDay today) = streakLoop ?L 0 (LocalDay today)"
    by (cases ?L) (simp_all add: getStreak_def Let_def)
  {
    assume k: "0 < k"
      and run: "\<forall>i < k. hasCompletion s habitId (formatDateString (LocalDay (addDays (- int i) today)))"
      and stop: "\<not> hasCompletion s habitId (formatDateString (LocalDay (addDays (- int k) today)))"
    have "streakLoop ?L 0 (LocalDay today) = 0 + k"
    proof (rule streakLoop_counts[OF sorted canonL boundL t])
      show "inRange (addDays (- int k) today)" by (rule earlier) simp
      show "\<forall>i < k. formatDateString (LocalDay (addDays (- int i) today)) \<in> set ?L"
        using run early by (simp add: set_streakCompletions)
      show "formatDateString (LocalDay (addDays (- int k) today)) \<notin> set ?L"
        using stop by (simp add: set_streakCompletions)
      show "0 < (0::nat) \<or> 0 < k" using k by simp
    qed
    then show "getStreak s habitId (LocalDay today) = k" by (simp add: getStreak)
  }
  {
    assume today: "\<not> hasCompletion s habitId ?ds"
      and run: "\<forall>i < k. hasCompletion s habitId (formatDateString (LocalDay (addDays (- int (Suc i)) today)))"
      and stop: "\<not> hasCompletion s habitId (formatDateString (LocalDay (addDays (- int (Suc k)) today)))"
    let ?y = "addDays (- 1) today"
    have ry: "inRange ?y" using earlier[of 1] by simp
    have vy: "validCivil ?y" using ry by (simp add: inRange_def)
    have db: "dayBefore (LocalDay today) = LocalDay ?y" by (rule dayBefore_addDays[OF vt])
    have shift: "addDays (- int i) ?y = addDays (- int (Suc i)) today" for i
    proof -
      have "- int i + - 1 = - int (Suc i)" by simp
      then show ?thesis using addDays_addDays[OF vt, of "- int i" "- 1"] by (simp only:)
    qed
    have nt: "?ds \<notin> set ?L" using today by (simp add: set_streakCompletions)
    have boundY: "\<forall>x \<in> set (?L). x \<le> formatDateString (LocalDay ?y)"
    proof
      fix x assume x: "x \<in> set ?L"
      then have "x \<noteq> ?ds" using nt by auto
      with x boundL have lt: "x < ?ds" by auto
      from x canonL obtain c where c: "inRange c" "x = formatDateString (LocalDay c)"
        using canonicalDate_format by blast
      have "dayNumber c < dayNumber today" using lt c format_less_iff[OF c(1) t] by simp
      then have "dayNumber c \<le> dayNumber ?y" using addDays_dayNumber[OF vt, of "- 1"] by simp
      then show "x \<le> formatDateString (LocalDay ?y)" using c format_le_iff[OF c(1) ry] by simp
    qed
    show "getStreak s habitId (LocalDay today) = k"
    proof (cases k)
      case 0
      have y0: "addDays (- int (Suc 0)) today = ?y" by simp
      have ny: "formatDateString (LocalDay ?y) \<notin> set ?L"
        using stop unfolding 0 y0 by (simp add: set_streakCompletions)
      show ?thesis
      proof (cases ?L)
        case Nil
        then show ?thesis using 0 by (simp add: getStreak)
      next
        case (Cons x xs)
        then have "x \<noteq> ?ds" "x \<noteq> formatDateString (LocalDay ?y)"
          using nt ny by auto
        then show ?thesis using 0 Cons db by (simp add: getStreak Let_def)
      qed
    next
      case (Suc k')
      have y0: "addDays (- int (Suc 0)) today = ?y" by simp
      have "hasCompletion s habitId (formatDateString (LocalDay (addDays (- int (Suc 0)) today)))"
        using run Suc by blast
      then have my: "formatDateString (LocalDay ?y) \<in> set ?L"
        unfolding y0 using early[of 1] by (simp add: set_streakCompletions)
      then obtain x xs where L: "?L = x # xs" by (cases ?L) auto
      have "\<forall>z \<in> set xs. z < x" using sorted L by simp
      moreover have "x \<le> formatDateString (LocalDay ?y)" using boundY L by simp
      ultimately have x: "x = formatDateString (LocalDay ?y)" using my L by auto
      have nx: "x \<noteq> ?ds" using nt L by auto
      have "streakLoop ?L 0 (LocalDay today) = streakLoop ?L 0 (LocalDay ?y)"
        unfolding L using streakLoop_skip_today[OF nx, of xs] x db by simp
      also have "\<dots> = 0 + k"
      proof (rule streakLoop_counts[OF sorted canonL boundY ry])
        show "inRange (addDays (- int k) ?y)" unfolding shift by (rule rk)
        show "\<forall>i < k. formatDateString (LocalDay (addDays (- int i) ?y)) \<in> set ?L"
        proof (intro allI impI)
          fix i assume i: "i < k"
          then have "hasCompletion s habitId (formatDateString (LocalDay (addDays (- int (Suc i)) today)))"
            using run by blast
          moreover have "formatDateString (LocalDay (addDays (- int (Suc i)) today)) \<le> ?ds"
            by (rule early) (use i in simp)
          ultimately show "formatDateString (LocalDay (addDays (- int i) ?y)) \<in> set ?L"
            unfolding shift by (simp add: set_streakCompletions del: of_nat_Suc)
        qed
        show "formatDateString (LocalDay (addDays (- int k) ?y)) \<notin> set ?L"
          unfolding shift using stop by (simp add: set_streakCompletions del: of_nat_Suc)
        show "0 < (0::nat) \<or> 0 < k" using Suc by simp
      qed
      finally show ?thesis by (simp add: getStreak)
    qed
  }
qed

theorem habit_streak_counts_back_from_today_witness: "getStreak scenarioE ''habit-e'' (LocalDay (2024, 3, 6)) = 2"
proof -
  have r: "inRange (addDays (- int (Suc 2)) (2024, 3, 6))"
    by (simp add: back_2024_03_06 inRange_def validCivil_def daysInMonth_def)
  have c: "\<forall>c \<in> set (habit_completions scenarioE).
      c_habit_id c = ''habit-e'' \<longrightarrow> canonicalDate (c_completed_date c)"
    by (simp add: scenarioE_def canonical_03_04 canonical_03_05)
  have u: "distinct (map c_completed_date
      (filter (\<lambda>c. c_habit_id c = ''habit-e'') (habit_completions scenarioE)))"
    by (simp add: scenarioE_def)
  have n: "\<not> hasCompletion scenarioE ''habit-e'' (formatDateString (LocalDay (2024, 3, 6)))"
    by (simp add: hasCompletion_def scenarioE_def format_march)
  have run: "\<forall>i < 2. hasCompletion scenarioE ''habit-e''
      (formatDateString (LocalDay (addDays (- int (Suc i)) (2024, 3, 6))))"
  proof (intro allI impI)
    fix i :: nat assume "i < 2"
    then consider "i = 0" | "i = 1" by linarith
    then show "hasCompletion scenarioE ''habit-e''
      (formatDateString (LocalDay (addDays (- int (Suc i)) (2024, 3, 6))))"
      by cases (simp_all add: back_2024_03_06 format_march format_2024_03_05 hasCompletion_def scenarioE_def)
  qed
  have stop: "\<not> hasCompletion scenarioE ''habit-e''
      (formatDateString (LocalDay (addDays (- int (Suc 2)) (2024, 3, 6))))"
    by (simp add: back_2024_03_06 format_march hasCompletion_def scenarioE_def)
  show ?thesis
    using habit_streak_counts_back_from_today[OF inRange_2024_03_06 c u r] n run stop by blast
qed

text \<open>
  C10. For the empty string as \<open>oneTimeDate\<close> the claim fails: the guard of the weekday
  rows tests the truthiness of \<open>oneTimeDate\<close> and takes the empty string for absent,
  while the value stored is \<open>oneTimeDate ?? null\<close>, which keeps it. \<open>createHabit\<close> succeeds
  and stores a custom habit that has both a \<open>one_time_date\<close> and a weekday row.
\<close>

theorem create_blank_one_time_inserts_days:
  "createHabit empty_store ''habit-x'' ''2024-03-01T08:00:00.000Z'' (LocalDay (2024, 3, 1)) blankOneTime
     = (blankOneTime_store,
        Inr \<lparr>hId = ''habit-x'', hName = ''stretch'', scheduleType = custom, intervalDays = None,
             oneTimeDate = Some [], createdAt = ''2024-03-01T08:00:00.000Z'',
             updatedAt = ''2024-03-01T08:00:00.000Z''\<rparr>)
   \<and> map h_one_time_date (habits blankOneTime_store) = [Some []]
   \<and> habit_days blankOneTime_store = [\<lparr>hd_habit_id = ''habit-x'', hd_day_of_week = 1\<rparr>]"
  by (simp add: createHabit_def blankOneTime_def blankOneTime_store_def empty_store_def
      insertHabit_def insertHabitDay_def createdHabit_def)

end
